(* ===== verification/Prelude.thy ===== *)
theory Prelude
  imports Main "HOL-Library.Word"
begin

text \<open>
  Shared vocabulary of the development: the machine integer types of the source, byte strings,
  Rust slices, the little-endian codecs behind \<^verbatim>\<open>to_le_bytes\<close> and \<^verbatim>\<open>from_le_bytes\<close>, the result
  type of fallible code, and the generic list and word lemmas the components use.

  \<^item> \<open>u8\<close>, \<open>u16\<close>, \<open>u32\<close>, \<open>u64\<close>, \<open>i64\<close> are words of the source's width; \<open>+\<close> wraps around as the
    release build of the crate does.  \<^verbatim>\<open>usize\<close> values (lengths, indices) are natural numbers.
  \<^item> Fixed-size arrays \<^verbatim>\<open>[u8; N]\<close> and \<^verbatim>\<open>Vec<u8>\<close> are both \<open>bytes\<close>; the size of an array is a
    component invariant.
  \<^item> \<^verbatim>\<open>std::io::Result<T>\<close> is \<open>io_error + 'a\<close>.
\<close>

unbundle bit_operations_syntax

type_synonym u8 = "8 word"
type_synonym u16 = "16 word"
type_synonym u32 = "32 word"
type_synonym u64 = "64 word"
type_synonym i64 = "64 word"
type_synonym bytes = "u8 list"

abbreviation U32_MAX :: u32 where
  "U32_MAX \<equiv> - 1"

abbreviation U64_MAX :: u64 where
  "U64_MAX \<equiv> - 1"

named_theorems layout_simps \<open>unfolding of fixed byte layouts into appended fields\<close>
named_theorems len_simps \<open>lengths of encoded values and of component buffers\<close>
named_theorems frame_simps \<open>fields of a state that an operation leaves alone\<close>

text \<open>The I/O error kinds the source distinguishes or that the standard library raises for it.\<close>

datatype io_error =
    InvalidInput | InvalidData | PermissionDenied | StorageFull | NotFound | AlreadyExists
  | UnexpectedEof | OtherError

text \<open>A computation that may panic (\<^verbatim>\<open>expect\<close>, \<^verbatim>\<open>copy_from_slice\<close> on different lengths).\<close>

datatype 'a outcome = Done 'a | Panic

text \<open>The bytes of an ASCII byte-string literal \<^verbatim>\<open>b"..."\<close>.\<close>

definition ascii :: "string \<Rightarrow> bytes" where
  "ascii cs = map of_char cs"

lemma length_ascii [simp]: "length (ascii cs) = length cs"
  by (simp add: ascii_def)

subsection \<open>Stepping a word\<close>

lemma unat_plus_one: "(x :: 'a::len word) \<noteq> - 1 \<Longrightarrow> unat (x + 1) = Suc (unat x)"
  using unatSuc [of x] by (simp add: add.commute eq_neg_iff_add_eq_0)

lemma word_xor_eq_0_iff: "(a :: 'a::len word) XOR b = 0 \<longleftrightarrow> a = b"
  by (auto simp: bit_eq_iff bit_simps)

lemma word_or_eq_0_iff: "(a :: 'a::len word) OR b = 0 \<longleftrightarrow> a = 0 \<and> b = 0"
  by (auto simp: bit_eq_iff bit_simps)

lemma unat_U32_MAX [simp]: "unat U32_MAX = 2 ^ 32 - 1"
  by (simp add: unsigned_minus_1_eq_mask mask_eq_exp_minus_1)

lemma unat_U64_MAX [simp]: "unat U64_MAX = 2 ^ 64 - 1"
  by (simp add: unsigned_minus_1_eq_mask mask_eq_exp_minus_1)

lemma word_eq_U32_MAX: "x = U32_MAX \<longleftrightarrow> unat x = 2 ^ 32 - 1"
  by (metis unat_U32_MAX unsigned_word_eqI)

lemma unat_u32_less: "unat (x :: u32) < 2 ^ 32"
  by (rule order.strict_trans2 [OF unsigned_less]) simp

lemma unat_u64_less: "unat (x :: u64) < 2 ^ 64"
  by (rule order.strict_trans2 [OF unsigned_less]) simp

subsection \<open>Rust slices\<close>

text \<open>\<open>subslice a b xs\<close> is \<^verbatim>\<open>xs[a..b]\<close>; \<open>copy_at a src xs\<close> is \<^verbatim>\<open>xs[a..a+n].copy_from_slice(src)\<close> with
  \<open>n\<close> the length of \<open>src\<close>.  Both are used within bounds only.\<close>

definition subslice :: "nat \<Rightarrow> nat \<Rightarrow> 'a list \<Rightarrow> 'a list" where
  "subslice a b xs = take (b - a) (drop a xs)"

definition copy_at :: "nat \<Rightarrow> 'a list \<Rightarrow> 'a list \<Rightarrow> 'a list" where
  "copy_at a src xs = take a xs @ src @ drop (a + length src) xs"

text \<open>An all-zero array, \<^verbatim>\<open>[0u8; n]\<close>.\<close>

abbreviation zeros :: "nat \<Rightarrow> bytes" where
  "zeros n \<equiv> replicate n 0"

lemma length_subslice [len_simps]: "length (subslice a b xs) = min (b - a) (length xs - a)"
  by (simp add: subslice_def)

lemma length_copy_at [len_simps]:
  "a + length src \<le> length xs \<Longrightarrow> length (copy_at a src xs) = length xs"
  by (simp add: copy_at_def)

lemma subslice_append_mid:
  "a = length p \<Longrightarrow> b = length p + length q \<Longrightarrow> subslice a b (p @ q @ s) = q"
  by (simp add: subslice_def)

lemma subslice_copy_at:
  "a \<le> length xs \<Longrightarrow> b = a + length src \<Longrightarrow> subslice a b (copy_at a src xs) = src"
  by (simp add: subslice_def copy_at_def)

lemma nth_subslice: "i < b - a \<Longrightarrow> a + i < length xs \<Longrightarrow> subslice a b xs ! i = xs ! (a + i)"
  by (simp add: subslice_def)

lemma subslice_copy_at_disjoint:
  assumes "a + length src \<le> length xs" and "b' \<le> a \<or> a + length src \<le> a'"
  shows "subslice a' b' (copy_at a src xs) = subslice a' b' xs"
proof (rule nth_equalityI)
  show "length (subslice a' b' (copy_at a src xs)) = length (subslice a' b' xs)"
    using assms(1) by (simp add: len_simps)
  fix i
  assume "i < length (subslice a' b' (copy_at a src xs))"
  with assms(1) have i: "i < b' - a'" "a' + i < length xs"
    by (auto simp: len_simps)
  with assms show "subslice a' b' (copy_at a src xs) ! i = subslice a' b' xs ! i"
    by (auto simp: nth_subslice len_simps) (auto simp: copy_at_def nth_append)
qed

lemma copy_at_nth_other:
  assumes "a + length src \<le> length xs" and "i < a \<or> a + length src \<le> i"
  shows "copy_at a src xs ! i = xs ! i"
proof (cases "i < length xs")
  case True
  with assms show ?thesis
    by (auto simp: copy_at_def nth_append)
next
  case False
  define j where "j = i - length xs"
  from False have i: "i = length xs + j"
    by (simp add: j_def)
  from assms(1) False show ?thesis
    by (auto simp: i copy_at_def nth_append nth_drop intro!: arg_cong [where f = "(!) xs"])

qed

end
