(* ===== verification/Codec.thy ===== *)
theory Codec
  imports Prelude
begin

text \<open>
  The little-endian codecs \<^verbatim>\<open>to_le_bytes\<close> and \<^verbatim>\<open>from_le_bytes\<close> of the standard library, at the
  widths the source uses, and the contract that the layouts built from them (AAD, nonce, HKDF
  info, superblock, padding trailer) rely on: the locale \<open>fixed_codec\<close>.
\<close>

subsection \<open>Little-endian bytes of a word\<close>

definition word_to_le :: "nat \<Rightarrow> 'a::len word \<Rightarrow> bytes" where
  "word_to_le n w = map (\<lambda>i. ucast (drop_bit (8 * i) w)) [0..<n]"

fun word_from_le :: "bytes \<Rightarrow> 'a::len word" where
  "word_from_le [] = 0"
| "word_from_le (b # bs) = ucast b OR push_bit 8 (word_from_le bs)"

definition u16_to_le :: "u16 \<Rightarrow> bytes" where "u16_to_le = word_to_le 2"
definition u16_from_le :: "bytes \<Rightarrow> u16" where "u16_from_le = word_from_le"
definition u32_to_le :: "u32 \<Rightarrow> bytes" where "u32_to_le = word_to_le 4"
definition u32_from_le :: "bytes \<Rightarrow> u32" where "u32_from_le = word_from_le"
definition u64_to_le :: "u64 \<Rightarrow> bytes" where "u64_to_le = word_to_le 8"
definition u64_from_le :: "bytes \<Rightarrow> u64" where "u64_from_le = word_from_le"

lemma length_word_to_le [simp]: "length (word_to_le n w) = n"
  by (simp add: word_to_le_def)

lemma bit_word_from_le:
  "bit (word_from_le bs :: 'a::len word) i \<longleftrightarrow>
     i < LENGTH('a) \<and> i div 8 < length bs \<and> bit (bs ! (i div 8)) (i mod 8)"
proof (induction bs arbitrary: i)
  case Nil
  show ?case by simp
next
  case (Cons b bs)
  show ?case
  proof (cases "i < 8")
    case True
    then show ?thesis
      by (auto simp: bit_simps)
  next
    case False
    then have "i div 8 = Suc ((i - 8) div 8)" and "i mod 8 = (i - 8) mod 8"
      by (simp_all add: le_div_geq le_mod_geq)
    moreover from False have "\<not> bit b i"
      using bit_imp_le_length [of b i] by auto
    ultimately show ?thesis
      using False by (simp add: bit_or_iff bit_unsigned_iff bit_push_bit_iff Cons.IH) arith
  qed
qed

lemma word_from_to_le:
  assumes "LENGTH('a::len) = 8 * n"
  shows "word_from_le (word_to_le n (w :: 'a word)) = w"
proof (rule bit_word_eqI)
  fix i
  assume i: "i < LENGTH('a)"
  with assms have "i div 8 < n"
    by (simp add: less_mult_imp_div_less mult.commute)
  with i show "bit (word_from_le (word_to_le n w) :: 'a word) i = bit w i"
    by (simp add: bit_word_from_le word_to_le_def bit_simps)
qed

lemma word_to_from_le_length:
  assumes "LENGTH('a::len) = 8 * length bs"
  shows "word_to_le (length bs) (word_from_le bs :: 'a word) = bs"
proof (rule nth_equalityI)
  show "length (word_to_le (length bs) (word_from_le bs :: 'a word)) = length bs"
    by simp
  fix i
  assume "i < length (word_to_le (length bs) (word_from_le bs :: 'a word))"
  then have i: "i < length bs" by simp
  show "word_to_le (length bs) (word_from_le bs :: 'a word) ! i = bs ! i"
  proof (rule bit_word_eqI)
    fix j
    assume "j < LENGTH(8)"
    then have j: "j < 8" by simp
    then have "(8 * i + j) div 8 = i" "(8 * i + j) mod 8 = j" by simp_all
    with i j assms show "bit (word_to_le (length bs) (word_from_le bs :: 'a word) ! i) j = bit (bs ! i) j"
      by (simp add: word_to_le_def bit_simps bit_word_from_le)
  qed
qed

lemma word_to_from_le:
  "LENGTH('a::len) = 8 * n \<Longrightarrow> length bs = n \<Longrightarrow> word_to_le n (word_from_le bs :: 'a word) = bs"
  using word_to_from_le_length [where 'a = 'a, of bs] by simp

subsection \<open>The contract of a fixed-width codec\<close>

locale fixed_codec =
  fixes enc :: "'v \<Rightarrow> bytes" and dec :: "bytes \<Rightarrow> 'v" and width :: nat
  assumes dec_enc: "dec (enc x) = x"
    and length_enc: "length (enc x) = width"
    and enc_dec: "length bs = width \<Longrightarrow> enc (dec bs) = bs"
begin

lemma enc_eq_iff: "enc x = enc y \<longleftrightarrow> x = y"
  by (metis dec_enc)

lemma enc_append_eq_iff: "enc x @ s = enc y @ t \<longleftrightarrow> x = y \<and> s = t"
  by (auto simp: length_enc enc_eq_iff append_eq_append_conv)

lemma dec_field:
  "a = length p \<Longrightarrow> b = a + width \<Longrightarrow> dec (subslice a b (p @ enc x @ s)) = x"
  by (simp add: subslice_append_mid length_enc dec_enc)

lemma dec_inject:
  assumes "length bs = width" "length cs = width"
  shows "dec bs = dec cs \<longleftrightarrow> bs = cs"
proof
  assume "dec bs = dec cs"
  then have "enc (dec bs) = enc (dec cs)" by (rule arg_cong)
  then show "bs = cs" by (simp only: enc_dec assms)
qed (rule arg_cong)

end

interpretation le16: fixed_codec u16_to_le u16_from_le 2
  by unfold_locales
    (simp_all add: u16_to_le_def u16_from_le_def word_from_to_le word_to_from_le)

interpretation le32: fixed_codec u32_to_le u32_from_le 4
  by unfold_locales
    (simp_all add: u32_to_le_def u32_from_le_def word_from_to_le word_to_from_le)

interpretation le64: fixed_codec u64_to_le u64_from_le 8
  by unfold_locales
    (simp_all add: u64_to_le_def u64_from_le_def word_from_to_le word_to_from_le)

declare le16.length_enc [simp, len_simps] le32.length_enc [simp, len_simps]
  le64.length_enc [simp, len_simps]
declare le16.dec_enc [simp] le32.dec_enc [simp] le64.dec_enc [simp]
declare le16.enc_eq_iff [simp] le32.enc_eq_iff [simp] le64.enc_eq_iff [simp]
declare le16.enc_append_eq_iff [simp] le32.enc_append_eq_iff [simp] le64.enc_append_eq_iff [simp]

end
