(* ===== verification/World.thy ===== *)
theory World
  imports Codec
begin

text \<open>
  The surroundings of the crate.  \<open>env\<close> gathers, as one parameter \<open>E\<close> of the model, every piece of
  code the crate calls but does not contain: the crates \<^verbatim>\<open>sha2\<close>, \<^verbatim>\<open>hmac\<close>, \<^verbatim>\<open>hkdf\<close>, \<^verbatim>\<open>aes-gcm\<close>,
  \<^verbatim>\<open>chacha20poly1305\<close>, \<^verbatim>\<open>pqc_kyber\<close>, \<^verbatim>\<open>rand\<close> (the generator \<^verbatim>\<open>OsRng\<close>), \<^verbatim>\<open>zeroize\<close>, \<^verbatim>\<open>libc\<close>, and the
  operating system below \<^verbatim>\<open>std::fs\<close> (its clock and which of its calls fail).  What the crate relies
  on is stated as named predicates on \<open>E\<close>, which the theorems take as hypotheses; each records
  documented behaviour of one crate.  \<open>demo_env\<close> is a concrete instance of all of them.

  \<open>world\<close> is the mutable state outside the crate's own globals: how many draws have been made from
  the random generator, and the file system with its open descriptors.  The globals of the crate
  extend this record component by component, so one state carries the whole process.
\<close>

text \<open>What a signal sent to the own process does: end it (the default), nothing, or run a handler that returns.\<close>

datatype sig_disposition = Sig_default | Sig_ignored | Sig_handled

record env =
  sha256 :: "bytes \<Rightarrow> bytes"
  hmac_sha256 :: "bytes \<Rightarrow> bytes \<Rightarrow> bytes"
  hkdf_extract :: "bytes \<Rightarrow> bytes \<Rightarrow> bytes"
  hkdf_expand :: "bytes \<Rightarrow> bytes \<Rightarrow> nat \<Rightarrow> bytes option"
  aes_gcm_encrypt :: "bytes \<Rightarrow> bytes \<Rightarrow> bytes \<Rightarrow> bytes \<Rightarrow> bytes option"
  aes_gcm_decrypt :: "bytes \<Rightarrow> bytes \<Rightarrow> bytes \<Rightarrow> bytes \<Rightarrow> bytes option"
  chacha_encrypt :: "bytes \<Rightarrow> bytes \<Rightarrow> bytes \<Rightarrow> bytes option"
  chacha_decrypt :: "bytes \<Rightarrow> bytes \<Rightarrow> bytes \<Rightarrow> bytes option"
  kyber_keypair :: "nat \<Rightarrow> bytes \<times> bytes"
  kyber_encapsulate :: "bytes \<Rightarrow> nat \<Rightarrow> (bytes \<times> bytes) option"
  kyber_decapsulate :: "bytes \<Rightarrow> bytes \<Rightarrow> bytes option"
  os_rng_byte :: "nat \<Rightarrow> nat \<Rightarrow> u8"
  os_rng_u32 :: "nat \<Rightarrow> u32"
  zeroize_slice :: "bytes \<Rightarrow> bytes"
  zeroize_vec :: "bytes \<times> nat \<Rightarrow> bytes \<times> nat"
  os_fault :: "nat \<Rightarrow> (io_error \<times> nat) option"
  os_clock :: "nat \<Rightarrow> int"
  utimes_effect :: "int \<times> int \<Rightarrow> int \<times> int \<Rightarrow> int \<times> int"
  sys_alloc :: "(nat \<times> nat) list \<Rightarrow> nat \<Rightarrow> nat"
  sigterm_action :: sig_disposition

text \<open>
  Arguments, in order: \<open>hmac_sha256 key msg\<close>; \<open>hkdf_extract salt ikm\<close>; \<open>hkdf_expand prk info n\<close>
  (\<open>None\<close> for an invalid output length); \<open>aes_gcm_encrypt key nonce aad msg\<close> and its inverse;
  \<open>chacha_encrypt key nonce msg\<close> and its inverse; \<open>kyber_keypair d\<close> (public, secret),
  \<open>kyber_encapsulate pk d\<close> (ciphertext, shared secret), \<open>kyber_decapsulate ct sk\<close>, where \<open>d\<close> numbers
  the draw from the generator that the call consumes; \<open>os_rng_byte d i\<close>, byte \<open>i\<close> of draw \<open>d\<close>;
  \<open>zeroize_vec (allocation, length)\<close>; \<open>os_fault n\<close>, the error of system call \<open>n\<close> if it fails, with
  the number of bytes a failing write has already stored; \<open>os_clock n\<close>, the time in nanoseconds
  since the epoch at system call \<open>n\<close>; \<open>utimes_effect old requested\<close>, the access and modification
  time a successful \<^verbatim>\<open>utimes\<close> leaves; \<open>sys_alloc blocks n\<close>, the address the global allocator returns for \<open>n\<close> bytes
  when \<open>blocks\<close> (start and size) are in use, 0 for none; \<open>sigterm_action\<close>, the disposition of \<^verbatim>\<open>SIGTERM\<close>.
\<close>

record inode =
  content :: bytes
  durable :: bytes
  atime :: int
  mtime :: int

record fdesc =
  fd_ino :: nat
  fd_pos :: nat

record world =
  rng_draws :: nat
  os_calls :: nat
  paths :: "bytes \<rightharpoonup> nat"
  inodes :: "nat \<Rightarrow> inode"
  next_ino :: nat
  fds :: "nat \<Rightarrow> fdesc"
  next_fd :: nat

subsection \<open>The generator \<open>OsRng\<close>\<close>

text \<open>\<^verbatim>\<open>OsRng.fill_bytes(&mut buf)\<close> with \<open>buf\<close> of length \<open>n\<close>, and \<^verbatim>\<open>OsRng.next_u32()\<close>.\<close>

definition fill_bytes :: "env \<Rightarrow> nat \<Rightarrow> 'w world_scheme \<Rightarrow> bytes \<times> 'w world_scheme" where
  "fill_bytes E n w = (map (os_rng_byte E (rng_draws w)) [0..<n], w\<lparr>rng_draws := Suc (rng_draws w)\<rparr>)"

definition next_u32 :: "env \<Rightarrow> 'w world_scheme \<Rightarrow> u32 \<times> 'w world_scheme" where
  "next_u32 E w = (os_rng_u32 E (rng_draws w), w\<lparr>rng_draws := Suc (rng_draws w)\<rparr>)"

lemma length_fill_bytes [simp, len_simps]: "length (fst (fill_bytes E n w)) = n"
  by (simp add: fill_bytes_def)

lemma fill_bytes_length: "fill_bytes E n w = (bs, w') \<Longrightarrow> length bs = n"
  by (auto simp: fill_bytes_def)

subsection \<open>What the crate relies on\<close>

text \<open>SHA-256 and HMAC-SHA256 return 32 bytes.\<close>

definition hash_sizes :: "env \<Rightarrow> bool" where
  "hash_sizes E \<longleftrightarrow> (\<forall>m. length (sha256 E m) = 32) \<and> (\<forall>k m. length (hmac_sha256 E k m) = 32)"

text \<open>HKDF-Expand over SHA-256 fails only for outputs longer than 255 blocks of 32 bytes.\<close>

definition hkdf_laws :: "env \<Rightarrow> bool" where
  "hkdf_laws E \<longleftrightarrow>
     (\<forall>prk info n. n \<le> 255 * 32 \<longrightarrow> (\<exists>okm. hkdf_expand E prk info n = Some okm \<and> length okm = n))"

text \<open>
  AES-256-GCM with a 32-byte key and a 12-byte nonce: the ciphertext carries a 16-byte tag,
  decryption accepts exactly the outputs of encryption under the same key, nonce and associated
  data, and encryption fails only beyond the crate's length limit.
\<close>

definition aes_gcm_laws :: "env \<Rightarrow> bool" where
  "aes_gcm_laws E \<longleftrightarrow>
     (\<forall>k n a m c. length k = 32 \<longrightarrow> length n = 12 \<longrightarrow>
        (aes_gcm_decrypt E k n a c = Some m \<longleftrightarrow> aes_gcm_encrypt E k n a m = Some c)) \<and>
     (\<forall>k n a m c. length k = 32 \<longrightarrow> length n = 12 \<longrightarrow>
        aes_gcm_encrypt E k n a m = Some c \<longrightarrow> length c = length m + 16) \<and>
     (\<forall>k n a m. length k = 32 \<longrightarrow> length n = 12 \<longrightarrow> length m < 2 ^ 36 \<longrightarrow> length a < 2 ^ 36 \<longrightarrow>
        aes_gcm_encrypt E k n a m \<noteq> None)"

text \<open>The same for ChaCha20-Poly1305, used without associated data.\<close>

definition chacha_laws :: "env \<Rightarrow> bool" where
  "chacha_laws E \<longleftrightarrow>
     (\<forall>k n m c. length k = 32 \<longrightarrow> length n = 12 \<longrightarrow>
        (chacha_decrypt E k n c = Some m \<longleftrightarrow> chacha_encrypt E k n m = Some c)) \<and>
     (\<forall>k n m c. length k = 32 \<longrightarrow> length n = 12 \<longrightarrow>
        chacha_encrypt E k n m = Some c \<longrightarrow> length c = length m + 16) \<and>
     (\<forall>k n m. length k = 32 \<longrightarrow> length n = 12 \<longrightarrow> length m < 2 ^ 32 \<longrightarrow>
        chacha_encrypt E k n m \<noteq> None)"

text \<open>
  Kyber-1024: the sizes of its objects, and decapsulation recovers the encapsulated secret.  The last
  law is the scheme's correctness without its documented failure probability (below \<open>2\<close> to the power
  \<open>-170\<close>): theorems that use it speak of the runs in which no such failure occurs.
\<close>

definition kyber_laws :: "env \<Rightarrow> bool" where
  "kyber_laws E \<longleftrightarrow>
     (\<forall>d. length (fst (kyber_keypair E d)) = 1568 \<and> length (snd (kyber_keypair E d)) = 3168) \<and>
     (\<forall>pk d. length pk = 1568 \<longrightarrow>
        (\<exists>ct ss. kyber_encapsulate E pk d = Some (ct, ss) \<and> length ct = 1568 \<and> length ss = 32)) \<and>
     (\<forall>d d' ct ss. kyber_encapsulate E (fst (kyber_keypair E d)) d' = Some (ct, ss) \<longrightarrow>
        kyber_decapsulate E ct (snd (kyber_keypair E d)) = Some ss)"

text \<open>Zeroizing a slice overwrites it; zeroizing a \<open>Vec\<close> clears it and its whole allocation.\<close>

definition zeroize_laws :: "env \<Rightarrow> bool" where
  "zeroize_laws E \<longleftrightarrow>
     (\<forall>b. zeroize_slice E b = zeros (length b)) \<and>
     (\<forall>a n. zeroize_vec E (a, n) = (zeros (length a), 0))"

text \<open>No system call fails; \<^verbatim>\<open>utimes\<close> stores the times it is given.\<close>

definition os_reliable :: "env \<Rightarrow> bool" where
  "os_reliable E \<longleftrightarrow> (\<forall>n. os_fault E n = None)"

definition utimes_laws :: "env \<Rightarrow> bool" where
  "utimes_laws E \<longleftrightarrow> (\<forall>old new. utimes_effect E old new = new)"

text \<open>Two blocks of memory that share no byte.  A block the allocator returns shares no byte with a block in use; \<open>alloc_total\<close> says
  that it never runs out of memory.\<close>

fun apart :: "nat \<times> nat \<Rightarrow> nat \<times> nat \<Rightarrow> bool" where
  "apart (p, n) (q, m) \<longleftrightarrow> p + n \<le> q \<or> q + m \<le> p"

definition alloc_laws :: "env \<Rightarrow> bool" where
  "alloc_laws E \<longleftrightarrow>
     (\<forall>bs n. 0 < n \<longrightarrow> sys_alloc E bs n \<noteq> 0 \<longrightarrow> (\<forall>b\<in>set bs. apart (sys_alloc E bs n, n) b))"

definition alloc_total :: "env \<Rightarrow> bool" where
  "alloc_total E \<longleftrightarrow> (\<forall>bs n. sys_alloc E bs n \<noteq> 0)"

subsection \<open>A concrete environment\<close>

text \<open>
  A small instance, used to show that the hypotheses can hold together.  Its ciphers append the
  first 16 bytes of the key as tag, its hashes truncate or pad their input.
\<close>

definition demo_tag :: "bytes \<Rightarrow> bytes" where
  "demo_tag k = take 16 (k @ zeros 16)"

definition demo_seal :: "bytes \<Rightarrow> bytes \<Rightarrow> bytes" where
  "demo_seal k m = m @ demo_tag k"

definition demo_open :: "bytes \<Rightarrow> bytes \<Rightarrow> bytes option" where
  "demo_open k c =
     (if 16 \<le> length c \<and> drop (length c - 16) c = demo_tag k then Some (take (length c - 16) c) else None)"

definition demo_pad32 :: "bytes \<Rightarrow> bytes" where
  "demo_pad32 m = take 32 (m @ zeros 32)"

definition demo_env :: env where
  "demo_env = \<lparr>
     sha256 = demo_pad32,
     hmac_sha256 = (\<lambda>k m. demo_pad32 (k @ m)),
     hkdf_extract = (\<lambda>salt ikm. salt @ ikm),
     hkdf_expand = (\<lambda>prk info n. if n \<le> 255 * 32 then Some (take n (prk @ zeros n)) else None),
     aes_gcm_encrypt = (\<lambda>k n a m. Some (demo_seal k m)),
     aes_gcm_decrypt = (\<lambda>k n a c. demo_open k c),
     chacha_encrypt = (\<lambda>k n m. Some (demo_seal k m)),
     chacha_decrypt = (\<lambda>k n c. demo_open k c),
     kyber_keypair = (\<lambda>d. (replicate 1568 1, replicate 3168 2)),
     kyber_encapsulate = (\<lambda>pk d. if length pk = 1568 then Some (replicate 1568 3, replicate 32 4) else None),
     kyber_decapsulate = (\<lambda>ct sk. if length ct = 1568 \<and> length sk = 3168 then Some (replicate 32 4) else None),
     os_rng_byte = (\<lambda>d i. of_nat (d + i)),
     os_rng_u32 = (\<lambda>d. of_nat d),
     zeroize_slice = (\<lambda>b. zeros (length b)),
     zeroize_vec = (\<lambda>(a, n). (zeros (length a), 0)),
     os_fault = (\<lambda>n. None),
     os_clock = (\<lambda>n. 1000000 * int n),
     utimes_effect = (\<lambda>old new. new),
     sys_alloc = (\<lambda>bs n. Suc (sum_list (map (\<lambda>(p, m). p + m) bs))),
     sigterm_action = Sig_default
   \<rparr>"

definition demo_world :: world where
  "demo_world = \<lparr>rng_draws = 0, os_calls = 0, paths = Map.empty,
     inodes = (\<lambda>_. \<lparr>content = [], durable = [], atime = 0, mtime = 0\<rparr>), next_ino = 0,
     fds = (\<lambda>_. \<lparr>fd_ino = 0, fd_pos = 0\<rparr>), next_fd = 0\<rparr>"

lemma length_demo_tag [simp]: "length (demo_tag k) = 16"
  by (simp add: demo_tag_def)

lemma length_demo_pad32 [simp]: "length (demo_pad32 m) = 32"
  by (simp add: demo_pad32_def)

lemma demo_open_iff: "demo_open k c = Some m \<longleftrightarrow> c = demo_seal k m"
proof
  assume "demo_open k c = Some m"
  then have "drop (length c - 16) c = demo_tag k" and "m = take (length c - 16) c"
    by (auto simp: demo_open_def split: if_splits)
  then show "c = demo_seal k m"
    by (metis append_take_drop_id demo_seal_def)
next
  assume "c = demo_seal k m"
  then show "demo_open k c = Some m"
    by (simp add: demo_open_def demo_seal_def)
qed

lemma demo_hash_sizes: "hash_sizes demo_env"
  by (simp add: hash_sizes_def demo_env_def)

lemma demo_hkdf_laws: "hkdf_laws demo_env"
  by (auto simp: hkdf_laws_def demo_env_def min_def)

lemma demo_aes_gcm_laws: "aes_gcm_laws demo_env"
  by (auto simp: aes_gcm_laws_def demo_env_def demo_open_iff demo_seal_def)

lemma demo_chacha_laws: "chacha_laws demo_env"
  by (auto simp: chacha_laws_def demo_env_def demo_open_iff demo_seal_def)

lemma demo_kyber_laws: "kyber_laws demo_env"
  by (simp add: kyber_laws_def demo_env_def)

lemma demo_zeroize_laws: "zeroize_laws demo_env"
  by (simp add: zeroize_laws_def demo_env_def)

lemma demo_os_reliable: "os_reliable demo_env"
  by (simp add: os_reliable_def demo_env_def)

lemma demo_utimes_laws: "utimes_laws demo_env"
  by (simp add: utimes_laws_def demo_env_def)

lemma demo_alloc_laws: "alloc_laws demo_env"
proof -
  have "p + m \<le> sum_list (map (\<lambda>(p, m). p + m) bs)" if "(p, m) \<in> set bs" for p m :: nat and bs
    using member_le_sum_list [of "p + m" "map (\<lambda>(p, m). p + m) bs"] that by force
  then show ?thesis
    by (fastforce simp: alloc_laws_def demo_env_def)
qed

lemma demo_alloc_total: "alloc_total demo_env"
  by (simp add: alloc_total_def demo_env_def)

lemmas demo_laws = demo_alloc_laws demo_alloc_total demo_hash_sizes demo_hkdf_laws demo_aes_gcm_laws demo_chacha_laws
  demo_kyber_laws demo_zeroize_laws demo_os_reliable demo_utimes_laws

end
