(* ===== verification/Root_State.thy ===== *)
theory Root_State
  imports World
begin

text \<open>
  The key schedule state: the message counter of \<^verbatim>\<open>message_cipher.rs\<close> and the three globals of
  \<^verbatim>\<open>root_state.rs\<close> (current root key, pending root key, epoch).  The counter comes first because
  \<^verbatim>\<open>commit_evolution\<close> and \<^verbatim>\<open>roll_epoch_forward\<close> reset it.  Each operation takes and returns the
  whole process state; the locks make the operations atomic.
\<close>

subsection \<open>The message counter\<close>

record msg_globals = world +
  msg_counter :: u64

definition next_msg_seq :: "'a msg_globals_scheme \<Rightarrow> u64 \<times> 'a msg_globals_scheme" where
  "next_msg_seq s = (msg_counter s, s\<lparr>msg_counter := msg_counter s + 1\<rparr>)"

definition reset_msg_counter :: "'a msg_globals_scheme \<Rightarrow> 'a msg_globals_scheme" where
  "reset_msg_counter s = s\<lparr>msg_counter := 1\<rparr>"

definition current_msg_seq :: "'a msg_globals_scheme \<Rightarrow> u64" where
  "current_msg_seq s = msg_counter s"

subsection \<open>Root keys and epoch\<close>

record root_globals = msg_globals +
  root_curr :: bytes
  root_pend :: "bytes option"
  epoch_id :: u32

definition set_root_state_curr :: "bytes \<Rightarrow> 'a root_globals_scheme \<Rightarrow> 'a root_globals_scheme" where
  "set_root_state_curr key s = s\<lparr>root_curr := key\<rparr>"

definition read_root_state_curr :: "'a root_globals_scheme \<Rightarrow> bytes" where
  "read_root_state_curr s = root_curr s"

definition set_root_state_pend :: "bytes option \<Rightarrow> 'a root_globals_scheme \<Rightarrow> 'a root_globals_scheme" where
  "set_root_state_pend key s = s\<lparr>root_pend := key\<rparr>"

definition read_root_state_pend :: "'a root_globals_scheme \<Rightarrow> bytes option" where
  "read_root_state_pend s = root_pend s"

definition read_epoch_id :: "'a root_globals_scheme \<Rightarrow> u32" where
  "read_epoch_id s = epoch_id s"

definition set_epoch_id :: "u32 \<Rightarrow> 'a root_globals_scheme \<Rightarrow> 'a root_globals_scheme" where
  "set_epoch_id i s = s\<lparr>epoch_id := i\<rparr>"

definition commit_evolution :: "env \<Rightarrow> 'a root_globals_scheme \<Rightarrow> u32 \<times> 'a root_globals_scheme" where
  "commit_evolution E s =
     (case root_pend s of
        None \<Rightarrow> (1, s)
      | Some new_key \<Rightarrow>
          let s = s\<lparr>root_curr := zeroize_slice E (root_curr s)\<rparr>;
              s = s\<lparr>root_curr := new_key\<rparr>;
              s = s\<lparr>root_pend := None\<rparr>;
              s = s\<lparr>epoch_id := epoch_id s + 1\<rparr>
          in (0, reset_msg_counter s))"

definition roll_epoch_forward ::
  "env \<Rightarrow> bytes \<Rightarrow> bytes \<Rightarrow> 'a root_globals_scheme \<Rightarrow> u32 \<times> 'a root_globals_scheme" where
  "roll_epoch_forward E salt info s =
     (case hkdf_expand E (hkdf_extract E salt (root_curr s)) info 32 of
        Some okm \<Rightarrow>
          let s = s\<lparr>root_curr := zeroize_slice E (root_curr s)\<rparr>;
              s = s\<lparr>root_curr := okm\<rparr>;
              s = s\<lparr>epoch_id := epoch_id s + 1\<rparr>;
              s = reset_msg_counter s
          in (epoch_id s, s)
      | None \<Rightarrow> (U32_MAX, s))"

definition demo_msg :: msg_globals where
  "demo_msg = world.extend demo_world (msg_globals.fields 1)"

definition demo_root :: root_globals where
  "demo_root = msg_globals.extend demo_msg (root_globals.fields (zeros 32) (Some (replicate 32 1)) 0)"

lemmas demo_state_defs = demo_root_def demo_msg_def demo_world_def world.extend_def
  msg_globals.extend_def msg_globals.fields_def root_globals.fields_def

lemmas root_accessor_defs [simp] =
  current_msg_seq_def set_root_state_curr_def read_root_state_curr_def set_root_state_pend_def
  read_root_state_pend_def read_epoch_id_def set_epoch_id_def

subsection \<open>Well-formed key state\<close>

text \<open>The arrays \<^verbatim>\<open>[u8; 32]\<close> behind the globals hold 32 bytes.\<close>

definition root_wf :: "'a root_globals_scheme \<Rightarrow> bool" where
  "root_wf s \<longleftrightarrow> length (root_curr s) = 32 \<and> (\<forall>k. root_pend s = Some k \<longrightarrow> length k = 32)"

lemma commit_evolution_Some:
  "root_pend s = Some k \<Longrightarrow>
     commit_evolution E s =
       (0, s\<lparr>msg_counter := 1, root_curr := k, root_pend := None, epoch_id := epoch_id s + 1\<rparr>)"
  by (simp add: commit_evolution_def reset_msg_counter_def Let_def)

lemma commit_evolution_None: "root_pend s = None \<Longrightarrow> commit_evolution E s = (1, s)"
  by (simp add: commit_evolution_def)

lemma roll_epoch_forward_Some:
  "hkdf_expand E (hkdf_extract E salt (root_curr s)) info 32 = Some okm \<Longrightarrow>
     roll_epoch_forward E salt info s =
       (epoch_id s + 1, s\<lparr>msg_counter := 1, root_curr := okm, epoch_id := epoch_id s + 1\<rparr>)"
  by (simp add: roll_epoch_forward_def reset_msg_counter_def Let_def)

lemma commit_evolution_root_wf: "root_wf s \<Longrightarrow> root_wf (snd (commit_evolution E s))"
  by (cases "root_pend s") (auto simp: root_wf_def commit_evolution_Some commit_evolution_None)

lemma hkdf_expand_32:
  assumes "hkdf_laws E"
  obtains okm where "hkdf_expand E prk info 32 = Some okm" and "length okm = 32"
proof -
  from assms have "(32::nat) \<le> 255 * 32 \<longrightarrow>
      (\<exists>okm. hkdf_expand E prk info 32 = Some okm \<and> length okm = 32)"
    unfolding hkdf_laws_def by blast
  with that show thesis by auto
qed

lemma roll_epoch_forward_root_wf:
  assumes "hkdf_laws E" and "root_wf s"
  shows "root_wf (snd (roll_epoch_forward E salt info s))"
proof -
  obtain okm where "hkdf_expand E (hkdf_extract E salt (root_curr s)) info 32 = Some okm"
    and "length okm = 32"
    using assms(1) by (rule hkdf_expand_32)
  with assms(2) show ?thesis
    by (simp add: roll_epoch_forward_Some root_wf_def)
qed

subsection \<open>The contract of an operation that ends an epoch\<close>

text \<open>
  Committing an evolution and rolling forward share one contract towards the message layer: they
  install a new root key, step the epoch and restart the sequence numbers, or change nothing.
\<close>

locale epoch_advance =
  fixes advance :: "'s root_globals_scheme \<Rightarrow> u32 \<times> 's root_globals_scheme"
    and new_key :: "'s root_globals_scheme \<Rightarrow> bytes option"
  assumes advance_done: "new_key s = Some k \<Longrightarrow>
      root_curr (snd (advance s)) = k \<and> epoch_id (snd (advance s)) = epoch_id s + 1 \<and>
      msg_counter (snd (advance s)) = 1"
    and advance_refused: "new_key s = None \<Longrightarrow> snd (advance s) = s"
begin

text \<open>No (epoch, sequence number) pair of the epoch that ended is handed out again first.\<close>

lemma first_pair_after:
  "new_key s = Some k \<Longrightarrow> (epoch_id (snd (advance s)), fst (next_msg_seq (snd (advance s)))) = (epoch_id s + 1, 1)"
  by (simp add: advance_done next_msg_seq_def)

lemma epoch_step: "epoch_id (snd (advance s)) \<in> {epoch_id s, epoch_id s + 1}"
  by (cases "new_key s") (auto simp: advance_done advance_refused)

lemma counter_step: "msg_counter (snd (advance s)) = 1 \<or> snd (advance s) = s"
  by (cases "new_key s") (auto simp: advance_done advance_refused)

text \<open>
  Pairs are compared by epoch first, then by sequence number: below the wrap-around the next pair
  to be handed out only grows.
\<close>

lemma position_grows:
  assumes "epoch_id s \<noteq> U32_MAX"
  shows "unat (epoch_id s) < unat (epoch_id (snd (advance s))) \<or> snd (advance s) = s"
proof (cases "new_key s")
  case None
  then show ?thesis by (simp add: advance_refused)
next
  case (Some k)
  with assms show ?thesis by (simp add: advance_done unat_plus_one)
qed

end

interpretation commit: epoch_advance "commit_evolution E" root_pend for E
  by unfold_locales (simp_all add: commit_evolution_Some commit_evolution_None)

interpretation roll: epoch_advance "roll_epoch_forward E salt info"
  "\<lambda>s. hkdf_expand E (hkdf_extract E salt (root_curr s)) info 32" for E salt info
  by unfold_locales
    (simp_all add: roll_epoch_forward_Some, simp add: roll_epoch_forward_def)

end
