(* ===== verification/Memory_Protection.thy ===== *)
theory Memory_Protection
  imports World
begin

text \<open>
  \<^verbatim>\<open>memory_protection.rs\<close>: the zeroizing byte container \<^verbatim>\<open>SecureBuffer\<close> and the terminal sequence
  \<^verbatim>\<open>execute_panic_exit\<close>.  A \<^verbatim>\<open>Vec<u8>\<close> is modelled with its allocation, so that what remains in
  memory can be stated: the first \<open>v_len\<close> bytes of \<open>v_alloc\<close> are the elements, the rest is spare
  capacity.
\<close>

record vec =
  v_alloc :: bytes
  v_len :: nat

record secure_buffer =
  inner :: vec

definition vec_wf :: "vec \<Rightarrow> bool" where
  "vec_wf v \<longleftrightarrow> v_len v \<le> length (v_alloc v)"

definition vec_new :: vec where
  "vec_new = \<lparr>v_alloc = [], v_len = 0\<rparr>"

text \<open>\<^verbatim>\<open>Vec::with_capacity\<close>: \<open>mem\<close> is the fresh allocation the allocator hands out.\<close>

definition vec_with_capacity :: "bytes \<Rightarrow> vec" where
  "vec_with_capacity mem = \<lparr>v_alloc = mem, v_len = 0\<rparr>"

definition to_vec :: "bytes \<Rightarrow> vec" where
  "to_vec b = \<lparr>v_alloc = b, v_len = length b\<rparr>"

definition vec_zeroize :: "env \<Rightarrow> vec \<Rightarrow> vec" where
  "vec_zeroize E v = (let (a, n) = zeroize_vec E (v_alloc v, v_len v) in \<lparr>v_alloc = a, v_len = n\<rparr>)"

definition vec_clear :: "vec \<Rightarrow> vec" where
  "vec_clear v = v\<lparr>v_len := 0\<rparr>"

subsection \<open>Operations of SecureBuffer\<close>

definition sb_new :: secure_buffer where
  "sb_new = \<lparr>inner = vec_new\<rparr>"

definition sb_with_capacity :: "bytes \<Rightarrow> secure_buffer" where
  "sb_with_capacity mem = \<lparr>inner = vec_with_capacity mem\<rparr>"

definition sb_from_vec :: "vec \<Rightarrow> secure_buffer" where
  "sb_from_vec v = \<lparr>inner = v\<rparr>"

definition sb_as_slice :: "secure_buffer \<Rightarrow> bytes" where
  "sb_as_slice b = take (v_len (inner b)) (v_alloc (inner b))"

text \<open>\<^verbatim>\<open>as_mut_slice\<close> lends the elements for in-place change: \<open>f\<close> is what the borrower does to them.\<close>

definition sb_as_mut_slice :: "(bytes \<Rightarrow> bytes) \<Rightarrow> secure_buffer \<Rightarrow> secure_buffer" where
  "sb_as_mut_slice f b =
     b\<lparr>inner := (inner b)\<lparr>v_alloc := f (sb_as_slice b) @ drop (v_len (inner b)) (v_alloc (inner b))\<rparr>\<rparr>"

definition sb_len :: "secure_buffer \<Rightarrow> nat" where
  "sb_len b = v_len (inner b)"

definition sb_is_empty :: "secure_buffer \<Rightarrow> bool" where
  "sb_is_empty b \<longleftrightarrow> v_len (inner b) = 0"

definition sb_clear :: "env \<Rightarrow> secure_buffer \<Rightarrow> secure_buffer" where
  "sb_clear E b =
     (let b = b\<lparr>inner := vec_zeroize E (inner b)\<rparr>;
          b = b\<lparr>inner := vec_clear (inner b)\<rparr>
      in b)"

definition sb_drop :: "env \<Rightarrow> secure_buffer \<Rightarrow> secure_buffer" where
  "sb_drop E b = b\<lparr>inner := vec_zeroize E (inner b)\<rparr>"

text \<open>The trait implementations that forward to the operations above: \<^verbatim>\<open>Default\<close>, \<^verbatim>\<open>Deref\<close>, \<^verbatim>\<open>DerefMut\<close>, \<^verbatim>\<open>From<Vec<u8>>\<close>.\<close>

definition sb_default :: secure_buffer where
  "sb_default = sb_new"

definition sb_deref :: "secure_buffer \<Rightarrow> bytes" where
  "sb_deref b = take (v_len (inner b)) (v_alloc (inner b))"

definition sb_deref_mut :: "(bytes \<Rightarrow> bytes) \<Rightarrow> secure_buffer \<Rightarrow> secure_buffer" where
  "sb_deref_mut f b =
     b\<lparr>inner := (inner b)\<lparr>v_alloc := f (sb_deref b) @ drop (v_len (inner b)) (v_alloc (inner b))\<rparr>\<rparr>"

definition sb_from :: "vec \<Rightarrow> secure_buffer" where
  "sb_from v = sb_from_vec v"

text \<open>\<^verbatim>\<open>Debug\<close> under the format \<^verbatim>\<open>{:?}\<close>: the decimal length and capacity, and \<^verbatim>\<open>..\<close> for the hidden contents.\<close>

fun decimal :: "nat \<Rightarrow> string" where
  "decimal n = (if n < 10 then [char_of (48 + n)] else decimal (n div 10) @ [char_of (48 + n mod 10)])"

declare decimal.simps [simp del]

definition sb_debug :: "secure_buffer \<Rightarrow> string" where
  "sb_debug b =
     ''SecureBuffer { len: '' @ decimal (v_len (inner b)) @ '', capacity: '' @ decimal (length (v_alloc (inner b))) @ '', .. }''"

subsection \<open>Terminal sequence\<close>

text \<open>How the process ends: killed by a signal, or by \<^verbatim>\<open>_exit\<close> with a code.  The signal it sends to itself is delivered before
  \<^verbatim>\<open>kill\<close> returns; under the default disposition the sleep and \<^verbatim>\<open>_exit\<close> are then never reached.\<close>

datatype process_end = Killed_by_signal | Exited nat

definition execute_panic_exit :: "env \<Rightarrow> process_end" where
  "execute_panic_exit E =
     (case sigterm_action E of
        Sig_default \<Rightarrow> Killed_by_signal
      | Sig_ignored \<Rightarrow> Exited 1
      | Sig_handled \<Rightarrow> Exited 1)"

lemma vec_zeroize_eq:
  "zeroize_laws E \<Longrightarrow> vec_zeroize E v = \<lparr>v_alloc = zeros (length (v_alloc v)), v_len = 0\<rparr>"
  by (simp add: vec_zeroize_def zeroize_laws_def)

lemma sb_as_slice_from_vec [simp]: "sb_as_slice (sb_from_vec (to_vec b)) = b"
  by (simp add: sb_as_slice_def sb_from_vec_def to_vec_def)

lemma sb_len_from_vec [simp]: "sb_len (sb_from_vec (to_vec b)) = length b"
  by (simp add: sb_len_def sb_from_vec_def to_vec_def)

lemma sb_as_slice_new [simp]: "sb_as_slice sb_new = []"
  by (simp add: sb_as_slice_def sb_new_def vec_new_def)

subsection \<open>No residue\<close>



text \<open>The text of a buffer does not depend on its bytes.\<close>

lemma sb_debug_redacts: "length a = length b \<Longrightarrow> sb_debug (sb_from_vec (to_vec a)) = sb_debug (sb_from_vec (to_vec b))"
  by (simp add: sb_debug_def sb_from_vec_def to_vec_def)

lemma sb_debug_example: "sb_debug (sb_from (to_vec [1, 2, 3])) = ''SecureBuffer { len: 3, capacity: 3, .. }''"
  by code_simp

lemma sb_clear_empty:
  "zeroize_laws E \<Longrightarrow> sb_is_empty (sb_clear E b) \<and> v_alloc (inner (sb_clear E b)) = zeros (length (v_alloc (inner b)))"
  by (simp add: sb_clear_def sb_is_empty_def vec_zeroize_eq vec_clear_def)

end
