(* ===== verification/Evolution.thy ===== *)
theory Evolution
  imports Root_State Memory_Protection
begin

text \<open>
  \<^verbatim>\<open>evolution.rs\<close>: the three-phase post-quantum evolution.  Alice encapsulates to Bob's public key and
  derives a pending root key (\<open>start_evolution\<close>), Bob decapsulates and derives the same one
  (\<open>apply_peer_kem\<close>), both commit.  The globals are the stored KEM ciphertext, Bob's key pair, the
  peer's public key and the hash bound to it.
\<close>

record evo_globals = root_globals +
  kem_cipher :: "secure_buffer option"
  bob_keys :: "bytes \<times> secure_buffer"
  bob_public_key :: bytes
  peer_pk_hash :: bytes

definition evo_zeroize :: "'a evo_globals_scheme \<Rightarrow> 'a evo_globals_scheme" where
  "evo_zeroize s = s\<lparr>kem_cipher := None\<rparr>"

text \<open>Writing \<open>src\<close> to the front of an output slice panics when the slice is too short.\<close>

definition copy_front :: "bytes \<Rightarrow> bytes \<Rightarrow> bytes outcome" where
  "copy_front src out = (if length src \<le> length out then Done (copy_at 0 src out) else Panic)"

definition generate_bob_keypair ::
  "env \<Rightarrow> bytes \<Rightarrow> bytes \<Rightarrow> 'a evo_globals_scheme \<Rightarrow> (u32 \<times> bytes \<times> bytes \<times> 'a evo_globals_scheme) outcome" where
  "generate_bob_keypair E out_pk out_sk s =
     (let (public, secret) = kyber_keypair E (rng_draws s);
          s = s\<lparr>rng_draws := Suc (rng_draws s)\<rparr>;
          sk_buf = sb_from_vec (to_vec secret)
      in case copy_front public out_pk of
           Panic \<Rightarrow> Panic
         | Done out_pk \<Rightarrow>
             (case copy_front (sb_as_slice sk_buf) out_sk of
                Panic \<Rightarrow> Panic
              | Done out_sk \<Rightarrow> Done (0, out_pk, out_sk, s\<lparr>bob_keys := (public, sk_buf)\<rparr>)))"

definition set_peer_public_key :: "env \<Rightarrow> bytes \<Rightarrow> 'a evo_globals_scheme \<Rightarrow> 'a evo_globals_scheme" where
  "set_peer_public_key E pk s =
     (let s = s\<lparr>bob_public_key := pk\<rparr>
      in s\<lparr>peer_pk_hash := sha256 E pk\<rparr>)"

text \<open>\<open>None\<close> stands for the panic of \<^verbatim>\<open>expect\<close>.\<close>

definition derive_pending_key :: "env \<Rightarrow> bytes \<Rightarrow> bytes \<Rightarrow> bytes option" where
  "derive_pending_key E ss cur = hkdf_expand E (hkdf_extract E ss cur) (ascii ''LinkChat Evolution'') 32"

text \<open>The constant-time comparison: the accumulated difference of the first 32 bytes.\<close>

definition hash_diff :: "bytes \<Rightarrow> bytes \<Rightarrow> u8" where
  "hash_diff current_hash stored_hash =
     fold (\<lambda>i acc. acc OR (current_hash ! i XOR stored_hash ! i)) [0..<32] 0"

definition start_evolution :: "env \<Rightarrow> 'a evo_globals_scheme \<Rightarrow> (u32 \<times> 'a evo_globals_scheme) outcome" where
  "start_evolution E s =
     (let curr = read_root_state_curr s;
          pk = bob_public_key s
      in if pk = [] then Done (2, s)
         else
           let current_hash = sha256 E pk;
               stored_hash = peer_pk_hash s;
               acc = hash_diff current_hash stored_hash
           in if stored_hash \<noteq> zeros 32 \<and> acc \<noteq> 0 then Done (5, s)
              else
                let enc = kyber_encapsulate E pk (rng_draws s);
                    s = s\<lparr>rng_draws := Suc (rng_draws s)\<rparr>
                in case enc of
                     None \<Rightarrow> Done (1, s)
                   | Some (ct, ss) \<Rightarrow>
                       let kem_ct = sb_from_vec (to_vec ct)
                       in if length ss \<noteq> 32 then Done (4, s)
                          else
                            (case derive_pending_key E ss curr of
                               None \<Rightarrow> Panic
                             | Some derived \<Rightarrow>
                                 let s = set_root_state_pend (Some derived) s
                                 in Done (0, s\<lparr>kem_cipher := Some kem_ct\<rparr>)))"

definition get_kem_cipher :: "bytes \<Rightarrow> 'a evo_globals_scheme \<Rightarrow> nat \<times> bytes" where
  "get_kem_cipher out s =
     (case kem_cipher s of
        Some buf \<Rightarrow> (let len = min (sb_len buf) (length out) in (len, copy_at 0 (take len (sb_as_slice buf)) out))
      | None \<Rightarrow> (0, out))"

definition kem_cipher_len :: "'a evo_globals_scheme \<Rightarrow> nat" where
  "kem_cipher_len s = (case kem_cipher s of None \<Rightarrow> 0 | Some b \<Rightarrow> sb_len b)"

definition apply_peer_kem :: "env \<Rightarrow> bytes \<Rightarrow> 'a evo_globals_scheme \<Rightarrow> (u32 \<times> 'a evo_globals_scheme) outcome" where
  "apply_peer_kem E kem_ct s =
     (let sk = sb_as_slice (snd (bob_keys s))
      in if sk = [] then Done (3, s)
         else
           case kyber_decapsulate E kem_ct sk of
             None \<Rightarrow> Done (2, s)
           | Some ss \<Rightarrow>
               if length ss \<noteq> 32 then Done (4, s)
               else
                 let curr = read_root_state_curr s
                 in case derive_pending_key E ss curr of
                      None \<Rightarrow> Panic
                    | Some derived \<Rightarrow> Done (0, set_root_state_pend (Some derived) s))"

definition evolution_commit :: "env \<Rightarrow> 'a evo_globals_scheme \<Rightarrow> u32 \<times> 'a evo_globals_scheme" where
  "evolution_commit E s = commit_evolution E s"

definition demo_evo :: evo_globals where
  "demo_evo = root_globals.extend demo_root (evo_globals.fields None ([], sb_new) [] (zeros 32))"

lemmas demo_evo_defs = demo_evo_def root_globals.extend_def evo_globals.fields_def demo_state_defs

subsection \<open>The constant-time comparison\<close>

lemma fold_or_eq_zero:
  "fold (\<lambda>i acc. acc OR f i) xs (a :: u8) = 0 \<longleftrightarrow> a = 0 \<and> (\<forall>i\<in>set xs. f i = 0)"
  by (induction xs arbitrary: a) (auto simp: word_or_eq_0_iff)

lemma hash_diff_refl: "hash_diff a a = 0"
  unfolding hash_diff_def fold_or_eq_zero by simp

text \<open>The constant-time comparison of two 32-byte hashes reports no difference exactly when the
  hashes are equal.\<close>

lemma hash_diff_zero_iff:
  assumes "length a = 32" and "length b = 32"
  shows "hash_diff a b = 0 \<longleftrightarrow> a = b"
proof -
  have "hash_diff a b = 0 \<longleftrightarrow> (\<forall>i<32. a ! i XOR b ! i = 0)"
    by (auto simp: hash_diff_def fold_or_eq_zero)
  also have "\<dots> \<longleftrightarrow> a = b"
    using assms by (simp add: list_eq_iff_nth_eq word_xor_eq_0_iff)
  finally show ?thesis .
qed

subsection \<open>Phase one and two\<close>

definition pk_bound :: "env \<Rightarrow> 'a evo_globals_scheme \<Rightarrow> bool" where
  "pk_bound E s \<longleftrightarrow>
     peer_pk_hash s = sha256 E (bob_public_key s) \<or> bob_public_key s = [] \<and> peer_pk_hash s = zeros 32"

lemma set_peer_public_key_pk_bound: "pk_bound E (set_peer_public_key E pk s)"
  by (simp add: pk_bound_def set_peer_public_key_def)

lemma pk_bound_hash_diff:
  "hash_sizes E \<Longrightarrow> pk_bound E s \<Longrightarrow> bob_public_key s \<noteq> [] \<Longrightarrow>
     hash_diff (sha256 E (bob_public_key s)) (peer_pk_hash s) = 0"
  by (auto simp: pk_bound_def hash_diff_refl)

lemma derive_pending_key_total:
  assumes "hkdf_laws E"
  obtains k where "derive_pending_key E ss cur = Some k" and "length k = 32"
  unfolding derive_pending_key_def using assms by (rule hkdf_expand_32)

lemma start_evolution_accepts:
  assumes "hash_sizes E" and "pk_bound E s" and "bob_public_key s \<noteq> []"
    and "kyber_encapsulate E (bob_public_key s) (rng_draws s) = Some (ct, ss)" and "length ss = 32"
    and "derive_pending_key E ss (root_curr s) = Some k"
  shows "start_evolution E s = Done (0, s\<lparr>rng_draws := Suc (rng_draws s), root_pend := Some k,
    kem_cipher := Some (sb_from_vec (to_vec ct))\<rparr>)"
  using assms by (simp add: start_evolution_def pk_bound_hash_diff Let_def)

lemma apply_peer_kem_accepts:
  assumes "sb_as_slice (snd (bob_keys s)) = sk" and "sk \<noteq> []"
    and "kyber_decapsulate E ct sk = Some ss" and "length ss = 32"
    and "derive_pending_key E ss (root_curr s) = Some k"
  shows "apply_peer_kem E ct s = Done (0, s\<lparr>root_pend := Some k\<rparr>)"
  using assms by (simp add: apply_peer_kem_def)

lemma get_kem_cipher_all:
  "kem_cipher s = Some (sb_from_vec (to_vec ct)) \<Longrightarrow> length out = length ct \<Longrightarrow>
     get_kem_cipher out s = (length ct, ct)"
  by (simp add: get_kem_cipher_def copy_at_def)

lemma generate_bob_keypair_accepts:
  assumes "kyber_laws E" and "length out_pk = 1568" and "length out_sk = 3168"
  shows "generate_bob_keypair E out_pk out_sk s =
    Done (0, fst (kyber_keypair E (rng_draws s)), snd (kyber_keypair E (rng_draws s)),
      s\<lparr>rng_draws := Suc (rng_draws s), bob_keys := (fst (kyber_keypair E (rng_draws s)),
        sb_from_vec (to_vec (snd (kyber_keypair E (rng_draws s)))))\<rparr>)"
proof -
  obtain pk sk where kp: "kyber_keypair E (rng_draws s) = (pk, sk)" by (cases "kyber_keypair E (rng_draws s)")
  from assms(1) have "length (fst (kyber_keypair E (rng_draws s))) = 1568"
    and "length (snd (kyber_keypair E (rng_draws s))) = 3168"
    unfolding kyber_laws_def by blast+
  with kp assms(2,3) show ?thesis
    by (simp add: generate_bob_keypair_def copy_front_def copy_at_def)
qed

text \<open>Phase one with the key pair that Bob generated at draw \<open>d\<close>, and the secret and key he derives in phase two.\<close>

lemma evolution_agreement:
  assumes laws: "hash_sizes E" "hkdf_laws E" "kyber_laws E"
    and alice: "pk_bound E a" "bob_public_key a = fst (kyber_keypair E d)"
  obtains ct k ss where "length ct = 1568" and "length k = 32"
    and "start_evolution E a = Done (0, a\<lparr>rng_draws := Suc (rng_draws a), root_pend := Some k,
           kem_cipher := Some (sb_from_vec (to_vec ct))\<rparr>)"
    and "kyber_decapsulate E ct (snd (kyber_keypair E d)) = Some ss" and "length ss = 32"
    and "derive_pending_key E ss (root_curr a) = Some k"
proof -
  let ?pk = "fst (kyber_keypair E d)" and ?sk = "snd (kyber_keypair E d)"
  from laws(3) have len: "length ?pk = 1568" "length ?sk = 3168"
    unfolding kyber_laws_def by blast+
  from laws(3) len(1) obtain ct ss where enc: "kyber_encapsulate E ?pk (rng_draws a) = Some (ct, ss)"
    and ct: "length ct = 1568" and ss: "length ss = 32"
    unfolding kyber_laws_def by blast
  from laws(3) enc have dec: "kyber_decapsulate E ct ?sk = Some ss"
    unfolding kyber_laws_def by blast
  obtain k where k: "derive_pending_key E ss (root_curr a) = Some k" "length k = 32"
    using laws(2) by (rule derive_pending_key_total)
  have "start_evolution E a = Done (0, a\<lparr>rng_draws := Suc (rng_draws a), root_pend := Some k,
      kem_cipher := Some (sb_from_vec (to_vec ct))\<rparr>)"
    by (rule start_evolution_accepts) (use laws alice enc ss k len in auto)
  then show thesis using that ct k dec ss by blast
qed

text \<open>C3: The whole evolution makes the two peers converge.  From any two states with the same root
  key and epoch: Bob generates a key pair, Alice stores his public key, starts the evolution and
  hands over the stored ciphertext, Bob applies it, and both commit.  Every step succeeds, and
  afterwards both hold the same 32-byte root key in the next epoch, with no pending key and with
  their message counters restarted.\<close>

theorem evolution_handshake:
  assumes "hash_sizes E" and "hkdf_laws E" and "kyber_laws E"
    and "root_curr a = root_curr b" and "epoch_id a = epoch_id b"
  shows "\<exists>pk sk b1 a1 ct b2 a3 b3 k.
    generate_bob_keypair E (zeros 1568) (zeros 3168) b = Done (0, pk, sk, b1) \<and>
    start_evolution E (set_peer_public_key E pk a) = Done (0, a1) \<and>
    get_kem_cipher (zeros (kem_cipher_len a1)) a1 = (1568, ct) \<and>
    apply_peer_kem E ct b1 = Done (0, b2) \<and>
    evolution_commit E a1 = (0, a3) \<and> evolution_commit E b2 = (0, b3) \<and>
    root_curr a3 = k \<and> root_curr b3 = k \<and> length k = 32 \<and>
    root_pend a3 = None \<and> root_pend b3 = None \<and>
    epoch_id a3 = epoch_id a + 1 \<and> epoch_id b3 = epoch_id a + 1 \<and>
    msg_counter a3 = 1 \<and> msg_counter b3 = 1"
proof -
  let ?d = "rng_draws b"
  let ?pk = "fst (kyber_keypair E ?d)" and ?sk = "snd (kyber_keypair E ?d)"
  let ?b = "b\<lparr>rng_draws := Suc (rng_draws b), bob_keys := (?pk, sb_from_vec (to_vec ?sk))\<rparr>"
  let ?a = "set_peer_public_key E ?pk a"
  have gen: "generate_bob_keypair E (zeros 1568) (zeros 3168) b = Done (0, ?pk, ?sk, ?b)"
    using assms(3) by (rule generate_bob_keypair_accepts) simp_all
  have pre: "pk_bound E ?a" "bob_public_key ?a = ?pk"
    by (simp_all add: set_peer_public_key_pk_bound) (simp add: set_peer_public_key_def)
  obtain ct k ss where ct: "length ct = 1568" and k: "length k = 32"
    and start: "start_evolution E ?a = Done (0, ?a\<lparr>rng_draws := Suc (rng_draws ?a), root_pend := Some k,
           kem_cipher := Some (sb_from_vec (to_vec ct))\<rparr>)"
    and bob: "kyber_decapsulate E ct ?sk = Some ss" "length ss = 32" "derive_pending_key E ss (root_curr ?a) = Some k"
    by (rule evolution_agreement [OF assms(1-3) pre])
  have "length ?sk = 3168" using assms(3) unfolding kyber_laws_def by blast
  then have "?sk \<noteq> []" by auto
  then have app: "apply_peer_kem E ct ?b = Done (0, ?b\<lparr>root_pend := Some k\<rparr>)"
    using assms(4) bob by (intro apply_peer_kem_accepts) (simp_all add: set_peer_public_key_def)
  let ?a1 = "?a\<lparr>rng_draws := Suc (rng_draws ?a), root_pend := Some k,
           kem_cipher := Some (sb_from_vec (to_vec ct))\<rparr>"
    and ?b2 = "?b\<lparr>root_pend := Some k\<rparr>"
  have ca: "evolution_commit E ?a1 =
      (0, ?a1\<lparr>msg_counter := 1, root_curr := k, root_pend := None, epoch_id := epoch_id ?a1 + 1\<rparr>)"
    unfolding evolution_commit_def by (rule commit_evolution_Some) simp
  have cb: "evolution_commit E ?b2 =
      (0, ?b2\<lparr>msg_counter := 1, root_curr := k, root_pend := None, epoch_id := epoch_id ?b2 + 1\<rparr>)"
    unfolding evolution_commit_def by (rule commit_evolution_Some) simp
  have epochs: "epoch_id ?a1 = epoch_id a" "epoch_id ?b2 = epoch_id a"
    using assms(5) by (simp_all add: set_peer_public_key_def)
  have get: "get_kem_cipher (zeros (kem_cipher_len ?a1)) ?a1 = (1568, ct)"
    using get_kem_cipher_all [of ?a1 ct] ct by (simp add: kem_cipher_len_def)
  show ?thesis
    by (intro exI conjI, rule gen, rule start, rule get, rule app, rule ca, rule cb, rule refl)
      (simp_all add: epochs k assms(5) set_peer_public_key_def)
qed

theorem evolution_handshake_witness:
  "\<exists>pk sk b1 a1 ct b2 a3 b3.
    generate_bob_keypair demo_env (zeros 1568) (zeros 3168) demo_evo = Done (0, pk, sk, b1) \<and>
    start_evolution demo_env (set_peer_public_key demo_env pk demo_evo) = Done (0, a1) \<and>
    get_kem_cipher (zeros (kem_cipher_len a1)) a1 = (1568, ct) \<and>
    apply_peer_kem demo_env ct b1 = Done (0, b2) \<and>
    evolution_commit demo_env a1 = (0, a3) \<and> evolution_commit demo_env b2 = (0, b3) \<and>
    root_curr a3 = root_curr b3 \<and> epoch_id a3 = 1"
proof -
  have "epoch_id demo_evo + 1 = 1" by (simp add: demo_evo_defs)
  with evolution_handshake [OF demo_hash_sizes demo_hkdf_laws demo_kyber_laws refl refl, of demo_evo]
  show ?thesis by metis
qed



end
