(* ===== verification/Init_Module.thy ===== *)
theory Init_Module
  imports Evolution
begin

text \<open>
  \<^verbatim>\<open>init_module.rs\<close>, the part that does not touch the vault: interleaving the two entropy streams,
  the entropy gate, the identity stamp and the initial root key.  The stamp's persistence is in
  \<^verbatim>\<open>Ffi_Vault\<close>.
\<close>

record init_globals = evo_globals +
  bob_pk_store :: bytes

definition store_bob_public_key :: "bytes \<Rightarrow> 'a init_globals_scheme \<Rightarrow> 'a init_globals_scheme" where
  "store_bob_public_key pk s = s\<lparr>bob_pk_store := pk\<rparr>"

definition read_bob_pk :: "'a init_globals_scheme \<Rightarrow> bytes" where
  "read_bob_pk s = bob_pk_store s"

definition odd_even_interleave :: "bytes \<Rightarrow> bytes \<Rightarrow> bytes" where
  "odd_even_interleave alice bob =
     (let len = min (length alice) (length bob)
      in fold (\<lambda>i out. out @ [alice ! i] @ [bob ! i]) [0..<len] [])"

definition entropy_reject :: "bytes \<Rightarrow> bool" where
  "entropy_reject data =
     (if length data < 64 then True
      else if list_all (\<lambda>b. b = 0) data then True
      else if list_all (\<lambda>b. b = data ! 0) data then True
      else False)"

definition compute_id_stamp :: "env \<Rightarrow> bytes \<Rightarrow> bytes \<Rightarrow> bytes" where
  "compute_id_stamp E root_state_init bob_pk =
     sha256 E (ascii ''LinkChat ID Stamp'' @ root_state_init @ bob_pk)"

definition initialise_root_state ::
  "env \<Rightarrow> bytes \<Rightarrow> bytes \<Rightarrow> bytes \<Rightarrow> 'a init_globals_scheme \<Rightarrow> u32 \<times> 'a init_globals_scheme" where
  "initialise_root_state E alice bob bob_pk s =
     (if entropy_reject alice \<or> entropy_reject bob then (2, s)
      else
        let interleaved = odd_even_interleave alice bob
        in if length interleaved < 64 then (1, s)
           else if bob_pk = [] then (3, s)
           else
             let s = store_bob_public_key bob_pk s;
                 key = sha256 E (ascii ''LinkChat RootState Init'' @ interleaved);
                 s = set_root_state_curr key s;
                 s = set_epoch_id 0 s
             in (0, s))"

definition generate_id_stamp_from_curr :: "env \<Rightarrow> 'a init_globals_scheme \<Rightarrow> bytes" where
  "generate_id_stamp_from_curr E s = compute_id_stamp E (read_root_state_curr s) (read_bob_pk s)"

definition demo_init :: init_globals where
  "demo_init = evo_globals.extend demo_evo (init_globals.fields [])"

lemmas demo_init_defs = demo_init_def evo_globals.extend_def init_globals.fields_def demo_evo_defs

subsection \<open>Interleaving\<close>

lemma interleave_fold:
  "fold (\<lambda>i out. out @ [alice ! i] @ [bob ! i]) xs out = out @ concat (map (\<lambda>i. [alice ! i, bob ! i]) xs)"
  by (induction xs arbitrary: out) simp_all

lemma odd_even_interleave_concat:
  "odd_even_interleave alice bob =
     concat (map (\<lambda>i. [alice ! i, bob ! i]) [0..<min (length alice) (length bob)])"
  unfolding odd_even_interleave_def Let_def by (subst interleave_fold) simp

lemma odd_even_interleave_zip:
  "odd_even_interleave alice bob = concat (map (\<lambda>(a, b). [a, b]) (zip alice bob))"
proof -
  have "map (\<lambda>i. [alice ! i, bob ! i]) [0..<min (length alice) (length bob)] = map (\<lambda>(a, b). [a, b]) (zip alice bob)"
    by (rule nth_equalityI) simp_all
  then show ?thesis by (simp only: odd_even_interleave_concat)
qed

lemma odd_even_interleave_simps [simp]:
  "odd_even_interleave [] bob = []"
  "odd_even_interleave alice [] = []"
  "odd_even_interleave (a # alice) (b # bob) = a # b # odd_even_interleave alice bob"
  by (simp_all add: odd_even_interleave_zip)

lemma length_odd_even_interleave:
  "length (odd_even_interleave alice bob) = 2 * min (length alice) (length bob)"
  by (induction alice bob rule: list_induct2') simp_all

text \<open>Interleaving loses nothing of two streams of the same length: the even positions are
  Alice's bytes, the odd positions Bob's, so equal interleavings of equally long streams come from
  equal streams.\<close>

lemma odd_even_interleave_inject:
  assumes "length alice = length bob" and "length alice' = length bob'"
  shows "odd_even_interleave alice bob = odd_even_interleave alice' bob' \<longleftrightarrow> alice = alice' \<and> bob = bob'"
proof
  assume eq: "odd_even_interleave alice bob = odd_even_interleave alice' bob'"
  then have "length (odd_even_interleave alice bob) = length (odd_even_interleave alice' bob')" by simp
  with assms have "length alice = length bob" "length bob = length alice'" "length alice' = length bob'"
    by (simp_all add: length_odd_even_interleave)
  then show "alice = alice' \<and> bob = bob'"
    using eq by (induction alice bob alice' bob' rule: list_induct4) simp_all
qed simp

subsection \<open>Initialisation\<close>

lemma initialise_accepts:
  assumes "\<not> entropy_reject alice" and "\<not> entropy_reject bob" and "pk \<noteq> []"
  shows "initialise_root_state E alice bob pk s =
    (0, s\<lparr>root_curr := sha256 E (ascii ''LinkChat RootState Init'' @ odd_even_interleave alice bob),
          epoch_id := 0, bob_pk_store := pk\<rparr>)"
proof -
  from assms(1,2) have "64 \<le> length alice" and "64 \<le> length bob"
    by (auto simp: entropy_reject_def split: if_splits)
  with assms show ?thesis
    by (simp add: initialise_root_state_def store_bob_public_key_def length_odd_even_interleave)
qed

lemma initialise_refuses:
  "entropy_reject alice \<or> entropy_reject bob \<or> pk = [] \<Longrightarrow> snd (initialise_root_state E alice bob pk s) = s"
  by (auto simp: initialise_root_state_def Let_def)

lemma initialise_root_state_root_wf:
  assumes "hash_sizes E" and "root_wf s"
  shows "root_wf (snd (initialise_root_state E alice bob pk s))"
proof (cases "entropy_reject alice \<or> entropy_reject bob \<or> pk = []")
  case True
  with assms(2) show ?thesis by (simp add: initialise_refuses)
next
  case False
  with assms show ?thesis by (simp add: initialise_accepts root_wf_def hash_sizes_def)
qed

text \<open>Initialisation on every branch.  It returns 2 when either stream fails the entropy gate, 3
  when the public key is empty, and never 1; on an error nothing changes; on success exactly the
  current root key, the epoch and the stored public key are set, the root key being the hash of the
  labelled interleaving.  In particular a pending root key and the message counter are carried over.\<close>

lemma initialise_root_state_spec:
  "initialise_root_state E alice bob pk s =
     (if entropy_reject alice \<or> entropy_reject bob then (2, s)
      else if pk = [] then (3, s)
      else (0, s\<lparr>root_curr := sha256 E (ascii ''LinkChat RootState Init'' @ odd_even_interleave alice bob),
                 epoch_id := 0, bob_pk_store := pk\<rparr>))"
proof (cases "entropy_reject alice \<or> entropy_reject bob")
  case True
  then show ?thesis by (simp add: initialise_root_state_def)
next
  case False
  then have "\<not> length (odd_even_interleave alice bob) < 64"
    by (auto simp: entropy_reject_def length_odd_even_interleave split: if_splits)
  with False show ?thesis
    by (cases "pk = []") (simp add: initialise_root_state_def, simp add: initialise_accepts)
qed

text \<open>The entropy gate looks at whole streams but only their common prefix enters the key: a
  stream that is constant over the used prefix passes the gate when a longer tail differs, and the
  resulting root key is the same as for that constant prefix.\<close>

lemma entropy_gate_misses_unused_tail:
  assumes "64 \<le> length bob" and "\<not> entropy_reject bob" and "pk \<noteq> []"
  shows "initialise_root_state E (zeros (length bob) @ [1]) bob pk s =
    (0, s\<lparr>root_curr := sha256 E (ascii ''LinkChat RootState Init'' @ odd_even_interleave (zeros (length bob)) bob),
          epoch_id := 0, bob_pk_store := pk\<rparr>) \<and>
    entropy_reject (zeros (length bob))"
proof -
  have "odd_even_interleave (xs @ ys) bob = odd_even_interleave xs bob" if "length xs = length bob" for xs ys
    using that by (simp add: odd_even_interleave_zip zip_append1)
  moreover have "\<not> entropy_reject (zeros (length bob) @ [1])"
    using assms(1) by (auto simp: entropy_reject_def nth_append)
  moreover have "entropy_reject (zeros (length bob))"
    by (simp add: entropy_reject_def list_all_iff)
  ultimately show ?thesis
    using assms(2,3) by (simp add: initialise_accepts)
qed

end
