(* ===== verification/Anti_Dos.thy ===== *)
theory Anti_Dos
  imports Root_State
begin

text \<open>
  \<^verbatim>\<open>anti_dos.rs\<close>: rolling the root key forward to a later epoch, one epoch at a time, with a bound
  on the distance.
\<close>

fun recover_loop :: "env \<Rightarrow> nat \<Rightarrow> u32 \<Rightarrow> 'a root_globals_scheme \<Rightarrow> u32 \<times> 'a root_globals_scheme" where
  "recover_loop E 0 last_e s = (last_e, s)"
| "recover_loop E (Suc n) last_e s =
     (let (r, s) = roll_epoch_forward E (ascii ''epoch_roll'') (ascii ''LinkChat Epoch Roll'') s
      in if r = U32_MAX then (U32_MAX, s) else recover_loop E n r s)"

definition recover_after_loss :: "env \<Rightarrow> u32 \<Rightarrow> 'a root_globals_scheme \<Rightarrow> u32 \<times> 'a root_globals_scheme" where
  "recover_after_loss E target_epoch s =
     (let e = read_epoch_id s
      in if target_epoch \<le> e then (e, s)
         else
           let gap = target_epoch - e
           in if gap > 100000 then (U32_MAX, s)
              else recover_loop E (unat gap) e s)"

subsection \<open>What recovery computes\<close>

text \<open>One epoch roll on the key alone.\<close>

definition roll_key :: "env \<Rightarrow> bytes \<Rightarrow> bytes" where
  "roll_key E k =
     (case hkdf_expand E (hkdf_extract E (ascii ''epoch_roll'') k) (ascii ''LinkChat Epoch Roll'') 32 of
        Some okm \<Rightarrow> okm | None \<Rightarrow> [])"

lemma roll_once:
  assumes "hkdf_laws E"
  shows "roll_epoch_forward E (ascii ''epoch_roll'') (ascii ''LinkChat Epoch Roll'') s =
    (epoch_id s + 1, s\<lparr>msg_counter := 1, root_curr := roll_key E (root_curr s), epoch_id := epoch_id s + 1\<rparr>)"
proof -
  obtain okm where "hkdf_expand E (hkdf_extract E (ascii ''epoch_roll'') (root_curr s))
      (ascii ''LinkChat Epoch Roll'') 32 = Some okm"
    using assms by (rule hkdf_expand_32)
  then show ?thesis by (simp add: roll_epoch_forward_Some roll_key_def)
qed

lemma recover_loop_eq:
  assumes "hkdf_laws E"
  shows "unat (epoch_id s) + n < 2 ^ 32 \<Longrightarrow> 0 < n \<Longrightarrow>
    recover_loop E n last_e s =
      (epoch_id s + of_nat n,
       s\<lparr>msg_counter := 1, root_curr := (roll_key E ^^ n) (root_curr s), epoch_id := epoch_id s + of_nat n\<rparr>)"
proof (induction n arbitrary: last_e s)
  case 0
  then show ?case by simp
next
  case (Suc n)
  let ?s = "s\<lparr>msg_counter := 1, root_curr := roll_key E (root_curr s), epoch_id := epoch_id s + 1\<rparr>"
  have "epoch_id s \<noteq> U32_MAX"
    using Suc.prems(1) unfolding word_eq_U32_MAX by linarith
  then have e1: "unat (epoch_id s + 1) = Suc (unat (epoch_id s))" by (rule unat_plus_one)
  show ?case
  proof (cases "n = 0")
    case True
    then show ?thesis by (simp add: roll_once [OF assms])
  next
    case False
    with Suc.prems(1) e1 have "epoch_id s + 1 \<noteq> U32_MAX"
      unfolding word_eq_U32_MAX by linarith
    moreover have "recover_loop E n (epoch_id s + 1) ?s =
        (epoch_id ?s + of_nat n, ?s\<lparr>msg_counter := 1, root_curr := (roll_key E ^^ n) (root_curr ?s),
           epoch_id := epoch_id ?s + of_nat n\<rparr>)"
      using Suc.IH [of ?s] Suc.prems(1) e1 False by simp
    ultimately show ?thesis
      by (simp add: roll_once [OF assms] funpow_swap1 add.assoc)
  qed
qed

lemma recover_ahead:
  assumes "hkdf_laws E" and "epoch_id s < target"
  defines "gap \<equiv> unat target - unat (epoch_id s)"
  shows "recover_after_loss E target s =
    (if 100000 < gap then (U32_MAX, s)
     else (target, s\<lparr>msg_counter := 1, root_curr := (roll_key E ^^ gap) (root_curr s), epoch_id := target\<rparr>))"
proof -
  from assms(2) have lt: "unat (epoch_id s) < unat target" by (simp add: word_less_nat_alt)
  from assms(2) have gap: "unat (target - epoch_id s) = gap"
    unfolding gap_def by (simp add: unat_sub order_less_imp_le)
  have big: "100000 < target - epoch_id s \<longleftrightarrow> 100000 < gap"
    by (simp add: word_less_nat_alt gap)
  have "unat (epoch_id s) + gap < 2 ^ 32" and "0 < gap"
    using lt unat_u32_less [of target] by (simp_all add: gap_def)
  then have loop: "recover_loop E gap (epoch_id s) s =
      (epoch_id s + of_nat gap,
       s\<lparr>msg_counter := 1, root_curr := (roll_key E ^^ gap) (root_curr s), epoch_id := epoch_id s + of_nat gap\<rparr>)"
    by (intro recover_loop_eq [OF assms(1)])
  have "epoch_id s + of_nat gap = target"
    by (simp flip: gap)
  moreover have "\<not> target \<le> epoch_id s" using assms(2) by (simp add: not_le)
  ultimately show ?thesis
    using big loop gap by (simp add: recover_after_loss_def Let_def)
qed

lemma recover_not_ahead: "target \<le> epoch_id s \<Longrightarrow> recover_after_loss E target s = (epoch_id s, s)"
  by (simp add: recover_after_loss_def)

text \<open>C22: Recovery behaves as specified on every branch: a target that is not ahead returns the
  present epoch and changes nothing, a target more than 100000 epochs ahead is refused and changes
  nothing, and any other target is reached exactly, with the root key hashed forward once per epoch,
  the message counter restarted and every other part of the state untouched.\<close>

theorem recover_after_loss_spec:
  assumes "hkdf_laws E"
  shows "recover_after_loss E target s =
    (let gap = unat target - unat (epoch_id s)
     in if target \<le> epoch_id s then (epoch_id s, s)
        else if 100000 < gap then (U32_MAX, s)
        else (target, s\<lparr>msg_counter := 1, root_curr := (roll_key E ^^ gap) (root_curr s), epoch_id := target\<rparr>))"
proof (cases "target \<le> epoch_id s")
  case True
  then show ?thesis by (simp add: recover_not_ahead)
next
  case False
  then have "epoch_id s < target" by (simp add: not_le)
  from recover_ahead [OF assms this] False show ?thesis by (simp add: Let_def)
qed

theorem recover_after_loss_spec_witness:
  "recover_after_loss demo_env 2 demo_root =
     (2, demo_root\<lparr>msg_counter := 1, root_curr := (roll_key demo_env ^^ 2) (root_curr demo_root), epoch_id := 2\<rparr>)"
  using recover_after_loss_spec [OF demo_hkdf_laws, of 2 demo_root] by (simp add: demo_state_defs)

lemma recover_reaches:
  assumes "hkdf_laws E" and "epoch_id s \<le> target" and "unat target - unat (epoch_id s) \<le> 100000"
  shows "epoch_id (snd (recover_after_loss E target s)) = target \<and>
    root_curr (snd (recover_after_loss E target s)) = (roll_key E ^^ (unat target - unat (epoch_id s))) (root_curr s) \<and>
    root_pend (snd (recover_after_loss E target s)) = root_pend s"
proof (cases "epoch_id s = target")
  case True
  then show ?thesis by (simp add: recover_not_ahead)
next
  case False
  with assms show ?thesis by (simp add: recover_ahead)
qed

text \<open>Recovery does not depend on how it is split: recovering to an intermediate epoch first and
  then to the target gives the same root key and epoch as recovering to the target at once.\<close>

lemma recover_in_stages:
  assumes "hkdf_laws E" and "epoch_id s \<le> mid" and "mid \<le> target"
    and "unat target - unat (epoch_id s) \<le> 100000"
  defines "two \<equiv> snd (recover_after_loss E target (snd (recover_after_loss E mid s)))"
    and "one \<equiv> snd (recover_after_loss E target s)"
  shows "root_curr two = root_curr one \<and> epoch_id two = epoch_id one"
proof -
  let ?e = "unat (epoch_id s)" and ?s = "snd (recover_after_loss E mid s)"
  from assms(2,3) have le: "?e \<le> unat mid" "unat mid \<le> unat target"
    by (simp_all add: word_le_nat_alt)
  with assms(4) have mid: "epoch_id ?s = mid \<and> root_curr ?s = (roll_key E ^^ (unat mid - ?e)) (root_curr s)"
    using recover_reaches [OF assms(1,2)] by simp
  with assms(3,4) le have "epoch_id two = target \<and>
      root_curr two = (roll_key E ^^ (unat target - unat mid)) (root_curr ?s)"
    using recover_reaches [OF assms(1), of ?s target] by (simp add: two_def)
  moreover have "epoch_id one = target \<and> root_curr one = (roll_key E ^^ (unat target - ?e)) (root_curr s)"
    using recover_reaches [OF assms(1), of s target] assms(2-4) by (simp add: one_def)
  moreover have "unat target - ?e = (unat target - unat mid) + (unat mid - ?e)"
    using le by simp
  ultimately show ?thesis using mid by (simp add: funpow_add)
qed

end
