(* ===== verification/Message_Cipher.thy ===== *)
theory Message_Cipher
  imports Root_State
begin

text \<open>
  \<^verbatim>\<open>message_cipher.rs\<close>: derivation of message keys, the nonce and the associated data, encryption
  and decryption of the wire format \<open>nonce (12) | ciphertext | tag (16)\<close>, and decryption with
  automatic commit of a pending evolution.
\<close>

subsection \<open>Key derivation\<close>

definition key_info :: "u32 \<Rightarrow> u64 \<Rightarrow> bytes" where
  "key_info epoch msg_seq =
     (let info = zeros 12;
          info = copy_at 0 (u32_to_le epoch) info;
          info = copy_at 4 (u64_to_le msg_seq) info
      in info)"

definition derive_message_key_from_root :: "env \<Rightarrow> bytes \<Rightarrow> u32 \<Rightarrow> u64 \<Rightarrow> bytes outcome" where
  "derive_message_key_from_root E root epoch msg_seq =
     (let hk = hkdf_extract E root (ascii ''LinkChat HKDF Expand'')
      in case hkdf_expand E hk (key_info epoch msg_seq) 32 of
           Some okm \<Rightarrow> Done okm
         | None \<Rightarrow> Panic)"

definition derive_message_key :: "env \<Rightarrow> u32 \<Rightarrow> u64 \<Rightarrow> 'a root_globals_scheme \<Rightarrow> bytes outcome" where
  "derive_message_key E epoch msg_seq s =
     (let curr = read_root_state_curr s;
          hk = hkdf_extract E curr (ascii ''LinkChat HKDF Expand'')
      in case hkdf_expand E hk (key_info epoch msg_seq) 32 of
           Some okm \<Rightarrow> Done okm
         | None \<Rightarrow> Panic)"

subsection \<open>Nonce and associated data\<close>

definition build_nonce :: "u32 \<Rightarrow> u64 \<Rightarrow> u64 \<Rightarrow> bytes" where
  "build_nonce epoch timestamp msg_seq =
     (let n = zeros 12;
          n = copy_at 0 (u32_to_le epoch) n;
          n = copy_at 4 (u64_to_le (timestamp XOR msg_seq)) n
      in n)"

definition PROTO_VERSION :: u16 where
  "PROTO_VERSION = 4"

definition build_aad :: "bytes \<Rightarrow> bool \<Rightarrow> u32 \<Rightarrow> u64 \<Rightarrow> u64 \<Rightarrow> bytes" where
  "build_aad id_stamp outgoing epoch msg_seq timestamp =
     id_stamp @ [if outgoing then 0 else 1] @ u32_to_le epoch @ u64_to_le msg_seq @
     u64_to_le timestamp @ u16_to_le PROTO_VERSION"

subsection \<open>Encryption and decryption\<close>

definition encrypt ::
  "env \<Rightarrow> bytes \<Rightarrow> bytes \<Rightarrow> bytes \<Rightarrow> bool \<Rightarrow> u32 \<Rightarrow> u64 \<Rightarrow> u64 \<Rightarrow> bytes option" where
  "encrypt E plaintext key id_stamp outgoing epoch msg_seq timestamp =
     (let nonce = build_nonce epoch timestamp msg_seq;
          aad = build_aad id_stamp outgoing epoch msg_seq timestamp
      in case aes_gcm_encrypt E key nonce aad plaintext of
           None \<Rightarrow> None
         | Some ct \<Rightarrow> Some (nonce @ ct))"

definition decrypt ::
  "env \<Rightarrow> bytes \<Rightarrow> bytes \<Rightarrow> bytes \<Rightarrow> bool \<Rightarrow> u32 \<Rightarrow> u64 \<Rightarrow> u64 \<Rightarrow> bytes option" where
  "decrypt E wire key id_stamp outgoing epoch msg_seq timestamp =
     (if length wire < 28 then None
      else
        let nonce_bytes = take 12 wire;
            ct = drop 12 wire;
            aad = build_aad id_stamp outgoing epoch msg_seq timestamp
        in aes_gcm_decrypt E key nonce_bytes aad ct)"

definition try_decrypt_with_evolution ::
  "env \<Rightarrow> bytes \<Rightarrow> bytes \<Rightarrow> bool \<Rightarrow> u32 \<Rightarrow> u64 \<Rightarrow> u64 \<Rightarrow> 'a root_globals_scheme \<Rightarrow>
     ((bytes \<times> bool) option \<times> 'a root_globals_scheme) outcome" where
  "try_decrypt_with_evolution E wire id_stamp outgoing epoch msg_seq timestamp s =
     (let curr = read_root_state_curr s;
          local_epoch = read_epoch_id s
      in case derive_message_key_from_root E curr epoch msg_seq of
           Panic \<Rightarrow> Panic
         | Done curr_key \<Rightarrow>
             (case decrypt E wire curr_key id_stamp outgoing epoch msg_seq timestamp of
                Some pt \<Rightarrow> Done (Some (pt, False), s)
              | None \<Rightarrow>
                  if epoch = local_epoch + 1 then
                    (case read_root_state_pend s of
                       None \<Rightarrow> Done (None, s)
                     | Some pend \<Rightarrow>
                         (case derive_message_key_from_root E pend epoch msg_seq of
                            Panic \<Rightarrow> Panic
                          | Done pend_key \<Rightarrow>
                              (case decrypt E wire pend_key id_stamp outgoing epoch msg_seq timestamp of
                                 Some pt \<Rightarrow>
                                   (let (rc, s') = commit_evolution E s
                                    in Done (Some (pt, rc = 0), s'))
                               | None \<Rightarrow> Done (None, s))))
                  else Done (None, s)))"

subsection \<open>Layouts\<close>

lemma key_info_eq [layout_simps]: "key_info epoch msg_seq = u32_to_le epoch @ u64_to_le msg_seq"
  by (simp add: key_info_def copy_at_def)

lemma build_nonce_eq [layout_simps]:
  "build_nonce epoch timestamp msg_seq = u32_to_le epoch @ u64_to_le (timestamp XOR msg_seq)"
  by (simp add: build_nonce_def copy_at_def)

lemma length_build_nonce [simp, len_simps]: "length (build_nonce e t s) = 12"
  by (simp add: build_nonce_eq)

lemma length_build_aad [len_simps]: "length id_stamp = 32 \<Longrightarrow> length (build_aad id_stamp o' e s t) = 55"
  by (simp add: build_aad_def)

lemma key_info_inject: "key_info e s = key_info e' s' \<longleftrightarrow> e = e' \<and> s = s'"
  by (simp add: key_info_eq)

text \<open>C33: The associated data of a message binds every field it is built from: two messages with
  32-byte stamps have the same associated data only if stamp, direction, epoch, sequence number and
  timestamp are all equal.\<close>

theorem build_aad_inject:
  assumes "length stamp = 32" and "length stamp' = 32"
  shows "build_aad stamp dir e s t = build_aad stamp' dir' e' s' t' \<longleftrightarrow>
    stamp = stamp' \<and> dir = dir' \<and> e = e' \<and> s = s' \<and> t = t'"
  using assms
  by (auto simp: build_aad_def append_eq_append_conv)

theorem build_aad_inject_witness:
  "build_aad (zeros 32) True 0 1 5 \<noteq> build_aad (zeros 32) False 0 1 5"
  by (simp add: build_aad_inject)

text \<open>Two nonces agree exactly when the epochs agree and the exclusive-ors of timestamp and
  sequence number agree.\<close>

lemma build_nonce_eq_iff:
  "build_nonce e t s = build_nonce e' t' s' \<longleftrightarrow> e = e' \<and> t XOR s = t' XOR s'"
  by (simp add: build_nonce_eq)

subsection \<open>Keys\<close>

lemma derive_message_key_eq:
  "derive_message_key E e q s = derive_message_key_from_root E (root_curr s) e q"
  by (simp add: derive_message_key_def derive_message_key_from_root_def)

lemma derive_message_key_total:
  assumes "hkdf_laws E"
  obtains k where "derive_message_key_from_root E root e q = Done k" and "length k = 32"
proof -
  obtain okm where "hkdf_expand E (hkdf_extract E root (ascii ''LinkChat HKDF Expand'')) (key_info e q) 32 = Some okm"
    and "length okm = 32"
    using assms by (rule hkdf_expand_32)
  then show thesis
    by (intro that [of okm]) (simp_all add: derive_message_key_from_root_def)
qed

lemma derive_message_key_length:
  assumes "hkdf_laws E" and "derive_message_key_from_root E root e q = Done k"
  shows "length k = 32"
proof -
  obtain k' where "derive_message_key_from_root E root e q = Done k'" and "length k' = 32"
    using assms(1) by (rule derive_message_key_total)
  with assms(2) show ?thesis by simp
qed

subsection \<open>Encryption against decryption\<close>

lemma aes_decrypt_iff:
  "aes_gcm_laws E \<Longrightarrow> length k = 32 \<Longrightarrow> length n = 12 \<Longrightarrow>
     aes_gcm_decrypt E k n a c = Some m \<longleftrightarrow> aes_gcm_encrypt E k n a m = Some c"
  unfolding aes_gcm_laws_def by blast

lemma aes_encrypt_length:
  "aes_gcm_laws E \<Longrightarrow> length k = 32 \<Longrightarrow> length n = 12 \<Longrightarrow>
     aes_gcm_encrypt E k n a m = Some c \<Longrightarrow> length c = length m + 16"
  unfolding aes_gcm_laws_def by blast

lemma aes_encrypt_total:
  "aes_gcm_laws E \<Longrightarrow> length k = 32 \<Longrightarrow> length n = 12 \<Longrightarrow> length m < 2 ^ 36 \<Longrightarrow> length a < 2 ^ 36 \<Longrightarrow>
     \<exists>c. aes_gcm_encrypt E k n a m = Some c"
  unfolding aes_gcm_laws_def by blast

lemma encrypt_Some_iff:
  "encrypt E pt key stamp dir e s t = Some wire \<longleftrightarrow>
     (\<exists>ct. aes_gcm_encrypt E key (build_nonce e t s) (build_aad stamp dir e s t) pt = Some ct \<and>
           wire = build_nonce e t s @ ct)"
  by (auto simp: encrypt_def Let_def split: option.splits)

lemma decrypt_encrypt:
  assumes "aes_gcm_laws E" and "length key = 32" and "encrypt E pt key stamp dir e s t = Some wire"
  shows "decrypt E wire key stamp dir e s t = Some pt"
proof -
  from assms(3) obtain ct where ct: "aes_gcm_encrypt E key (build_nonce e t s) (build_aad stamp dir e s t) pt = Some ct"
    and wire: "wire = build_nonce e t s @ ct"
    by (auto simp: encrypt_Some_iff)
  from ct have "length ct = length pt + 16"
    by (rule aes_encrypt_length [OF assms(1,2) length_build_nonce])
  with ct wire aes_decrypt_iff [OF assms(1,2)] show ?thesis
    by (simp add: decrypt_def)
qed

lemma encrypt_total:
  assumes "aes_gcm_laws E" and "length key = 32" and "length stamp = 32" and "length pt < 2 ^ 36"
  obtains wire where "encrypt E pt key stamp dir e s t = Some wire" and "length wire = length pt + 28"
proof -
  let ?n = "build_nonce e t s" and ?a = "build_aad stamp dir e s t"
  have "length ?a < 2 ^ 36" using assms(3) by (simp add: length_build_aad)
  then obtain ct where ct: "aes_gcm_encrypt E key ?n ?a pt = Some ct"
    using aes_encrypt_total [OF assms(1,2)] assms(4) by fastforce
  then have "length ct = length pt + 16"
    by (rule aes_encrypt_length [OF assms(1,2) length_build_nonce])
  with ct show thesis by (intro that [of "?n @ ct"]) (simp_all add: encrypt_Some_iff)
qed

text \<open>C6: A message encrypted under a 32-byte key always succeeds below the cipher's length limit,
  the wire is exactly 28 bytes longer than the plaintext, and decrypting it with the same key,
  stamp, direction, epoch, sequence number and timestamp returns the plaintext.\<close>

theorem encrypt_decrypt_roundtrip:
  assumes "aes_gcm_laws E" and "length key = 32" and "length stamp = 32" and "length pt < 2 ^ 36"
  shows "\<exists>wire. encrypt E pt key stamp dir e s t = Some wire \<and> length wire = length pt + 28 \<and>
           decrypt E wire key stamp dir e s t = Some pt"
proof -
  obtain wire where "encrypt E pt key stamp dir e s t = Some wire" and "length wire = length pt + 28"
    using assms by (rule encrypt_total)
  with decrypt_encrypt [OF assms(1,2)] show ?thesis by blast
qed

theorem encrypt_decrypt_roundtrip_witness:
  "\<exists>wire. encrypt demo_env [7, 8] (zeros 32) (zeros 32) True 0 1 5 = Some wire \<and>
     length wire = length [7 :: u8, 8] + 28 \<and>
     decrypt demo_env wire (zeros 32) (zeros 32) True 0 1 5 = Some [7, 8]"
  by (rule encrypt_decrypt_roundtrip) (simp_all add: demo_laws)



subsection \<open>Decryption with automatic commit\<close>

text \<open>C9: Decryption with automatic commit never panics and changes the key state only when it
  returns the commit flag: a failed attempt and a decryption under the current root leave the state
  as it was, and the flag is returned only for a message of the next epoch that the pending root
  authenticates, in which case exactly that root becomes current, the pending slot is emptied, the
  epoch becomes the message's epoch and the counter restarts.\<close>

theorem try_decrypt_transactional:
  assumes "hkdf_laws E"
  shows "\<exists>r s'. try_decrypt_with_evolution E wire stamp dir e q t s = Done (r, s') \<and>
    (r = None \<longrightarrow> s' = s) \<and>
    (\<forall>pt. r = Some (pt, False) \<longrightarrow> s' = s \<and>
       (\<exists>k. derive_message_key_from_root E (root_curr s) e q = Done k \<and>
            decrypt E wire k stamp dir e q t = Some pt)) \<and>
    (\<forall>pt. r = Some (pt, True) \<longrightarrow> e = epoch_id s + 1 \<and>
       (\<exists>pend k. root_pend s = Some pend \<and> derive_message_key_from_root E pend e q = Done k \<and>
            decrypt E wire k stamp dir e q t = Some pt \<and>
            s' = s\<lparr>msg_counter := 1, root_curr := pend, root_pend := None, epoch_id := e\<rparr>))"
proof -
  obtain ck where ck: "derive_message_key_from_root E (root_curr s) e q = Done ck"
    using assms by (rule derive_message_key_total)
  obtain pk where pk: "derive_message_key_from_root E (the (root_pend s)) e q = Done pk"
    using assms by (rule derive_message_key_total)
  show ?thesis
  proof (cases "decrypt E wire ck stamp dir e q t")
    case (Some pt)
    with ck show ?thesis by (simp add: try_decrypt_with_evolution_def)
  next
    case None
    with ck pk show ?thesis
      by (auto simp: try_decrypt_with_evolution_def commit_evolution_Some split: option.splits)
  qed
qed

theorem try_decrypt_transactional_witness:
  "\<exists>s'. try_decrypt_with_evolution demo_env (zeros 12 @ [7] @ replicate 16 1) (zeros 32) True 1 1 5 demo_root =
      Done (Some ([7], True), s') \<and> root_curr s' = replicate 32 1 \<and> epoch_id s' = 1 \<and> msg_counter s' = 1"
proof -
  let ?run = "try_decrypt_with_evolution demo_env (zeros 12 @ [7] @ replicate 16 1) (zeros 32) True 1 1 5 demo_root"
  have "\<exists>s'. ?run = Done (Some ([7], True), s')"
    by (simp add: try_decrypt_with_evolution_def derive_message_key_from_root_def decrypt_def demo_env_def
        demo_open_def demo_tag_def demo_state_defs commit_evolution_def)
  with try_decrypt_transactional [OF demo_hkdf_laws, of "zeros 12 @ [7] @ replicate 16 1" "zeros 32" True 1 1 5 demo_root]
  show ?thesis
    by (auto simp: demo_state_defs)
qed

lemma try_decrypt_current:
  assumes "derive_message_key_from_root E (root_curr s) e q = Done k"
    and "decrypt E wire k stamp dir e q t = Some pt"
  shows "try_decrypt_with_evolution E wire stamp dir e q t s = Done (Some (pt, False), s)"
  using assms by (simp add: try_decrypt_with_evolution_def)

lemma try_decrypt_pending:
  assumes "derive_message_key_from_root E (root_curr s) e q = Done k"
    and "decrypt E wire k stamp dir e q t = None"
    and "e = epoch_id s + 1" and "root_pend s = Some pend"
    and "derive_message_key_from_root E pend e q = Done k'"
    and "decrypt E wire k' stamp dir e q t = Some pt"
  shows "try_decrypt_with_evolution E wire stamp dir e q t s =
    Done (Some (pt, True), s\<lparr>msg_counter := 1, root_curr := pend, root_pend := None, epoch_id := e\<rparr>)"
  using assms by (simp add: try_decrypt_with_evolution_def commit_evolution_Some)



end
