(* ===== verification/Key_Machine.thy ===== *)
theory Key_Machine
  imports Init_Module Anti_Dos Message_Cipher
begin

text \<open>
  The key state as a machine: every operation that reads or changes root keys, epoch or counter is one step, and a run is a sequence of
  whole operations.  What each operation leaves alone, and the invariant of all reachable states.  \<^verbatim>\<open>Key_Threads\<close> takes the operations
  apart into the accesses between which other threads may run.
\<close>

inductive key_step :: "env \<Rightarrow> 'a init_globals_scheme \<Rightarrow> 'a init_globals_scheme \<Rightarrow> bool" for E where
  step_commit: "key_step E s (snd (evolution_commit E s))"
| step_recover: "key_step E s (snd (recover_after_loss E t s))"
| step_keypair: "generate_bob_keypair E out_pk out_sk s = Done (rc, out_pk', out_sk', s') \<Longrightarrow> key_step E s s'"
| step_peer: "key_step E s (set_peer_public_key E pk s)"
| step_start: "start_evolution E s = Done (rc, s') \<Longrightarrow> key_step E s s'"
| step_apply: "apply_peer_kem E ct s = Done (rc, s') \<Longrightarrow> key_step E s s'"
| step_decrypt: "try_decrypt_with_evolution E wire stamp dir e q t s = Done (r, s') \<Longrightarrow> key_step E s s'"

inductive_cases key_stepE: "key_step E s s'"

text \<open>Reachability, in which the pairing may also be initialised again at any time.\<close>

inductive key_reach :: "env \<Rightarrow> 'a init_globals_scheme \<Rightarrow> 'a init_globals_scheme \<Rightarrow> bool" for E s where
  reach_start: "key_reach E s s"
| reach_step: "key_reach E s s1 \<Longrightarrow> key_step E s1 s2 \<Longrightarrow> key_reach E s s2"
| reach_issue: "key_reach E s s1 \<Longrightarrow> key_reach E s (snd (next_msg_seq s1))"
| reach_init: "key_reach E s s1 \<Longrightarrow> key_reach E s (snd (initialise_root_state E alice bob pk s1))"

subsection \<open>Effect of a step\<close>

definition same_position :: "'a evo_globals_scheme \<Rightarrow> 'a evo_globals_scheme \<Rightarrow> bool" where
  "same_position s s' \<longleftrightarrow> epoch_id s' = epoch_id s \<and> msg_counter s' = msg_counter s \<and> root_curr s' = root_curr s"

definition derived_pending :: "env \<Rightarrow> 'a evo_globals_scheme \<Rightarrow> 'a evo_globals_scheme \<Rightarrow> bool" where
  "derived_pending E s s' \<longleftrightarrow> root_pend s' = root_pend s \<or>
     (\<exists>ss k. root_pend s' = Some k \<and> derive_pending_key E ss (root_curr s) = Some k)"

definition same_peer :: "'a evo_globals_scheme \<Rightarrow> 'a evo_globals_scheme \<Rightarrow> bool" where
  "same_peer s s' \<longleftrightarrow> bob_public_key s' = bob_public_key s \<and> peer_pk_hash s' = peer_pk_hash s"

lemmas frame_defs = same_position_def derived_pending_def same_peer_def

lemma keypair_frame:
  "generate_bob_keypair E o1 o2 s = Done (rc, p, q, s') \<Longrightarrow> same_position s s' \<and> derived_pending E s s' \<and> same_peer s s'"
  by (auto simp: generate_bob_keypair_def frame_defs Let_def split: prod.splits outcome.splits)

lemma start_frame:
  "start_evolution E s = Done (rc, s') \<Longrightarrow> same_position s s' \<and> derived_pending E s s' \<and> same_peer s s'"
  by (auto simp: start_evolution_def frame_defs Let_def split: if_splits option.splits prod.splits)

lemma apply_frame:
  "apply_peer_kem E ct s = Done (rc, s') \<Longrightarrow> same_position s s' \<and> derived_pending E s s' \<and> same_peer s s'"
  by (auto simp: apply_peer_kem_def frame_defs Let_def split: if_splits option.splits)

lemma decrypt_frame:
  "try_decrypt_with_evolution E wire stamp dir e q t s = Done (r, s') \<Longrightarrow> s' = s \<or> s' = snd (commit_evolution E s)"
  by (auto simp: try_decrypt_with_evolution_def Let_def split: outcome.splits option.splits if_splits prod.splits)

subsection \<open>Reachable states\<close>

lemma roll_key_length: "hkdf_laws E \<Longrightarrow> length (roll_key E k) = 32"
proof -
  assume "hkdf_laws E"
  then obtain okm where "hkdf_expand E (hkdf_extract E (ascii ''epoch_roll'') k) (ascii ''LinkChat Epoch Roll'') 32 = Some okm"
    "length okm = 32" by (rule hkdf_expand_32)
  then show ?thesis by (simp add: roll_key_def)
qed

lemma recover_root_wf:
  assumes "hkdf_laws E" and "root_wf s"
  shows "root_wf (snd (recover_after_loss E t s))"
proof (cases "t \<le> epoch_id s")
  case True
  with assms(2) show ?thesis by (simp add: recover_not_ahead)
next
  case False
  then have "epoch_id s < t" by (simp add: not_le)
  moreover have "length ((roll_key E ^^ n) (root_curr s)) = 32" for n
    using assms by (cases n) (simp_all add: roll_key_length root_wf_def)
  ultimately show ?thesis
    using assms by (simp add: recover_ahead root_wf_def)
qed

definition key_inv :: "env \<Rightarrow> 'a evo_globals_scheme \<Rightarrow> bool" where
  "key_inv E s \<longleftrightarrow> root_wf s \<and> pk_bound E s"

lemma frame_key_inv:
  assumes "hkdf_laws E" and "same_position s s' \<and> derived_pending E s s' \<and> same_peer s s'" and "key_inv E s"
  shows "key_inv E s'"
proof -
  have "length k = 32" if "derive_pending_key E ss c = Some k" for ss c k
    using derive_pending_key_total [OF assms(1), of ss c] that by auto
  with assms(2,3) show ?thesis by (auto simp: key_inv_def root_wf_def pk_bound_def frame_defs)
qed

lemma commit_key_inv: "key_inv E s \<Longrightarrow> key_inv E (snd (commit_evolution E s))"
  by (cases "root_pend s")
    (auto simp: key_inv_def pk_bound_def root_wf_def commit_evolution_Some commit_evolution_None)

lemma recover_pk_bound: "hkdf_laws E \<Longrightarrow> pk_bound E s \<Longrightarrow> pk_bound E (snd (recover_after_loss E t s))"
  by (cases "t \<le> epoch_id s") (simp_all add: recover_not_ahead recover_ahead not_le pk_bound_def)

lemma step_key_inv:
  assumes "hkdf_laws E" and "key_inv E s" and "key_step E s s'"
  shows "key_inv E s'"
  using assms(3)
proof cases
  case (step_decrypt wire stamp dir e q t r)
  from decrypt_frame [OF this] assms(2) show ?thesis by (auto simp: commit_key_inv)
next
  case (step_recover t)
  with assms show ?thesis by (simp add: key_inv_def recover_root_wf recover_pk_bound)
next
  case (step_keypair o1 o2 rc p q)
  from frame_key_inv [OF assms(1) keypair_frame [OF this] assms(2)] show ?thesis .
next
  case (step_start rc)
  from frame_key_inv [OF assms(1) start_frame [OF this] assms(2)] show ?thesis .
next
  case (step_apply ct rc)
  from frame_key_inv [OF assms(1) apply_frame [OF this] assms(2)] show ?thesis .
next
  case (step_peer pk)
  with assms(2) show ?thesis by (simp add: key_inv_def set_peer_public_key_pk_bound) (simp add: set_peer_public_key_def root_wf_def)
qed (use assms(2) in \<open>simp add: evolution_commit_def commit_key_inv\<close>)

lemma reach_key_inv:
  assumes "hash_sizes E" and "hkdf_laws E" and "key_inv E s"
  shows "key_reach E s s' \<Longrightarrow> key_inv E s'"
proof (induction rule: key_reach.induct)
  case (reach_init s1 alice bob pk)
  then have "pk_bound E (snd (initialise_root_state E alice bob pk s1))"
    by (auto simp: initialise_root_state_def Let_def store_bob_public_key_def key_inv_def pk_bound_def)
  with reach_init assms(1) show ?case by (simp add: key_inv_def initialise_root_state_root_wf)
next
  case (reach_issue s1)
  then show ?case by (simp add: key_inv_def next_msg_seq_def root_wf_def pk_bound_def)
qed (use assms(3) in \<open>auto dest: step_key_inv [OF assms(2)]\<close>)

text \<open>In every reachable state, re-initialisation included, the current and the pending root key have 32 bytes, and
  starting an evolution returns without panic and never with code 5, the code for a swapped public key.\<close>

lemma reachable_key_state:
  assumes "hash_sizes E" and "hkdf_laws E" and "root_wf s" and "pk_bound E s" and "key_reach E s s'"
  shows "root_wf s' \<and> (\<exists>rc s''. start_evolution E s' = Done (rc, s'') \<and> rc \<noteq> 5)"
proof -
  from assms have inv: "root_wf s'" "pk_bound E s'" using reach_key_inv [of E s s'] by (simp_all add: key_inv_def)
  moreover have "\<exists>k. derive_pending_key E ss c = Some k" for ss c
    using derive_pending_key_total [OF assms(2), of ss c] by blast
  ultimately show ?thesis
    using pk_bound_hash_diff [OF assms(1) inv(2)]
    by (auto simp: start_evolution_def Let_def split: option.split prod.split) (metis option.distinct(1))
qed

end
