(* ===== verification/Key_Threads.thy ===== *)
theory Key_Threads
  imports Key_Machine
begin

text \<open>
  The key operations under threads.  A call is a program counter, and each access to a global under its lock is one step: between two
  steps any other call may run.  Only \<^verbatim>\<open>commit_evolution\<close>, \<^verbatim>\<open>roll_epoch_forward\<close>, \<^verbatim>\<open>set_peer_public_key\<close>, the storing of a key pair and
  the counter are single steps, because they hold the locks of all they touch or touch one global.  \<^verbatim>\<open>start_evolution\<close> keeps the lock of
  the peer's public key from its second access to its end, so its third and fourth step exclude other users of that lock.

  \<open>seen\<close> is the ghost set of all root keys that have been current or pending.
\<close>

record message =
  m_wire :: bytes
  m_stamp :: bytes
  m_dir :: bool
  m_epoch :: u32
  m_seq :: u64
  m_time :: u64

definition opens :: "env \<Rightarrow> message \<Rightarrow> bytes \<Rightarrow> bytes option outcome" where
  "opens E m root =
     (case derive_message_key_from_root E root (m_epoch m) (m_seq m) of
        Panic \<Rightarrow> Panic
      | Done k \<Rightarrow> Done (decrypt E (m_wire m) k (m_stamp m) (m_dir m) (m_epoch m) (m_seq m) (m_time m)))"

datatype job_end =
    Received message "(bytes \<times> bool) option" | Started u32 | Applied u32 | Recovered u32 | Initialised u32 | Panicked

datatype job =
    Recv_curr message | Recv_epoch message bytes | Recv_pend message | Recv_commit message bytes
  | Start_curr | Start_pk bytes | Start_pend bytes secure_buffer | Start_cipher secure_buffer
  | Apply_sk bytes | Apply_curr bytes | Apply_pend bytes
  | Recover_epoch u32 | Recover_roll nat u32
  | Init_pk bytes bytes bytes | Init_curr bytes | Init_epoch
  | Ended job_end

fun fresh_job :: "job \<Rightarrow> bool" where
  "fresh_job (Recv_curr m) = True"
| "fresh_job Start_curr = True"
| "fresh_job (Apply_sk ct) = True"
| "fresh_job (Recover_epoch t) = True"
| "fresh_job (Init_pk a b pk) = True"
| "fresh_job _ = False"

fun holds_pk :: "job \<Rightarrow> bool" where
  "holds_pk (Start_pend d c) = True"
| "holds_pk (Start_cipher c) = True"
| "holds_pk _ = False"

text \<open>\<^verbatim>\<open>try_decrypt_with_evolution\<close>: the current key, then the epoch with the first attempt, then the pending key with the second, then the commit.\<close>

fun recv_step :: "env \<Rightarrow> job \<Rightarrow> 'a init_globals_scheme \<Rightarrow> (job \<times> 'a init_globals_scheme) option" where
  "recv_step E (Recv_curr m) s = Some (Recv_epoch m (read_root_state_curr s), s)"
| "recv_step E (Recv_epoch m root) s =
     (let local_epoch = read_epoch_id s
      in case opens E m root of
           Panic \<Rightarrow> Some (Ended Panicked, s)
         | Done (Some pt) \<Rightarrow> Some (Ended (Received m (Some (pt, False))), s)
         | Done None \<Rightarrow> Some (if m_epoch m = local_epoch + 1 then Recv_pend m else Ended (Received m None), s))"
| "recv_step E (Recv_pend m) s =
     (case read_root_state_pend s of
        None \<Rightarrow> Some (Ended (Received m None), s)
      | Some pend \<Rightarrow>
          (case opens E m pend of
             Panic \<Rightarrow> Some (Ended Panicked, s)
           | Done (Some pt) \<Rightarrow> Some (Recv_commit m pt, s)
           | Done None \<Rightarrow> Some (Ended (Received m None), s)))"
| "recv_step E (Recv_commit m pt) s =
     (let (rc, s) = commit_evolution E s in Some (Ended (Received m (Some (pt, rc = 0))), s))"
| "recv_step E _ s = None"

text \<open>\<^verbatim>\<open>start_evolution\<close>.  The second step takes the lock of the public key and waits when another call has it; \<open>free\<close>: no call holds it.\<close>

fun evolution_step :: "env \<Rightarrow> bool \<Rightarrow> job \<Rightarrow> 'a init_globals_scheme \<Rightarrow> (job \<times> 'a init_globals_scheme) option" where
  "evolution_step E free Start_curr s = Some (Start_pk (read_root_state_curr s), s)"
| "evolution_step E free (Start_pk root) s =
     (if \<not> free then None
      else
        let pk = bob_public_key s
        in if pk = [] then Some (Ended (Started 2), s)
           else if peer_pk_hash s \<noteq> zeros 32 \<and> hash_diff (sha256 E pk) (peer_pk_hash s) \<noteq> 0 then Some (Ended (Started 5), s)
           else
             let enc = kyber_encapsulate E pk (rng_draws s);
                 s = s\<lparr>rng_draws := Suc (rng_draws s)\<rparr>
             in case enc of
                  None \<Rightarrow> Some (Ended (Started 1), s)
                | Some (ct, ss) \<Rightarrow>
                    if length ss \<noteq> 32 then Some (Ended (Started 4), s)
                    else
                      (case derive_pending_key E ss root of
                         None \<Rightarrow> Some (Ended Panicked, s)
                       | Some derived \<Rightarrow> Some (Start_pend derived (sb_from_vec (to_vec ct)), s)))"
| "evolution_step E free (Start_pend derived kem_ct) s = Some (Start_cipher kem_ct, set_root_state_pend (Some derived) s)"
| "evolution_step E free (Start_cipher kem_ct) s = Some (Ended (Started 0), s\<lparr>kem_cipher := Some kem_ct\<rparr>)"
| "evolution_step E free _ s = None"

text \<open>\<^verbatim>\<open>apply_peer_kem\<close>: the secret key, the current root key, the pending root key.\<close>

fun kem_step :: "env \<Rightarrow> job \<Rightarrow> 'a init_globals_scheme \<Rightarrow> (job \<times> 'a init_globals_scheme) option" where
  "kem_step E (Apply_sk kem_ct) s =
     (let sk = sb_as_slice (snd (bob_keys s))
      in if sk = [] then Some (Ended (Applied 3), s)
         else
           case kyber_decapsulate E kem_ct sk of
             None \<Rightarrow> Some (Ended (Applied 2), s)
           | Some ss \<Rightarrow> Some (if length ss \<noteq> 32 then Ended (Applied 4) else Apply_curr ss, s))"
| "kem_step E (Apply_curr ss) s =
     (case derive_pending_key E ss (read_root_state_curr s) of
        None \<Rightarrow> Some (Ended Panicked, s)
      | Some derived \<Rightarrow> Some (Apply_pend derived, s))"
| "kem_step E (Apply_pend derived) s = Some (Ended (Applied 0), set_root_state_pend (Some derived) s)"
| "kem_step E _ s = None"

text \<open>\<^verbatim>\<open>recover_after_loss\<close>: the epoch, then one step per roll.\<close>

fun recover_step :: "env \<Rightarrow> job \<Rightarrow> 'a init_globals_scheme \<Rightarrow> (job \<times> 'a init_globals_scheme) option" where
  "recover_step E (Recover_epoch target) s =
     (let e = read_epoch_id s
      in if target \<le> e then Some (Ended (Recovered e), s)
         else if target - e > 100000 then Some (Ended (Recovered U32_MAX), s)
         else Some (Recover_roll (unat (target - e)) e, s))"
| "recover_step E (Recover_roll 0 last_e) s = Some (Ended (Recovered last_e), s)"
| "recover_step E (Recover_roll (Suc n) last_e) s =
     (let (r, s) = roll_epoch_forward E (ascii ''epoch_roll'') (ascii ''LinkChat Epoch Roll'') s
      in Some (if r = U32_MAX then Ended (Recovered U32_MAX) else Recover_roll n r, s))"
| "recover_step E _ s = None"

text \<open>\<^verbatim>\<open>initialise_root_state\<close>: the stored public key, the current root key, the epoch.\<close>

fun initialise_step :: "env \<Rightarrow> job \<Rightarrow> 'a init_globals_scheme \<Rightarrow> (job \<times> 'a init_globals_scheme) option" where
  "initialise_step E (Init_pk alice bob pk) s =
     (if entropy_reject alice \<or> entropy_reject bob then Some (Ended (Initialised 2), s)
      else
        let interleaved = odd_even_interleave alice bob
        in if length interleaved < 64 then Some (Ended (Initialised 1), s)
           else if pk = [] then Some (Ended (Initialised 3), s)
           else Some (Init_curr (sha256 E (ascii ''LinkChat RootState Init'' @ interleaved)), store_bob_public_key pk s))"
| "initialise_step E (Init_curr key) s = Some (Init_epoch, set_root_state_curr key s)"
| "initialise_step E Init_epoch s = Some (Ended (Initialised 0), set_epoch_id 0 s)"
| "initialise_step E _ s = None"

text \<open>One step of a call; \<open>None\<close> when it waits for the lock of the public key or has ended.\<close>

fun job_step :: "env \<Rightarrow> bool \<Rightarrow> job \<Rightarrow> 'a init_globals_scheme \<Rightarrow> (job \<times> 'a init_globals_scheme) option" where
  "job_step E free (Recv_curr m) s = recv_step E (Recv_curr m) s"
| "job_step E free (Recv_epoch m root) s = recv_step E (Recv_epoch m root) s"
| "job_step E free (Recv_pend m) s = recv_step E (Recv_pend m) s"
| "job_step E free (Recv_commit m pt) s = recv_step E (Recv_commit m pt) s"
| "job_step E free Start_curr s = evolution_step E free Start_curr s"
| "job_step E free (Start_pk root) s = evolution_step E free (Start_pk root) s"
| "job_step E free (Start_pend derived kem_ct) s = evolution_step E free (Start_pend derived kem_ct) s"
| "job_step E free (Start_cipher kem_ct) s = evolution_step E free (Start_cipher kem_ct) s"
| "job_step E free (Apply_sk kem_ct) s = kem_step E (Apply_sk kem_ct) s"
| "job_step E free (Apply_curr ss) s = kem_step E (Apply_curr ss) s"
| "job_step E free (Apply_pend derived) s = kem_step E (Apply_pend derived) s"
| "job_step E free (Recover_epoch target) s = recover_step E (Recover_epoch target) s"
| "job_step E free (Init_pk alice bob pk) s = initialise_step E (Init_pk alice bob pk) s"
| "job_step E free (Init_curr key) s = initialise_step E (Init_curr key) s"
| "job_step E free Init_epoch s = initialise_step E Init_epoch s"
| "job_step E free (Recover_roll n e) s = recover_step E (Recover_roll n e) s"
| "job_step E free (Ended r) s = None"

subsection \<open>A call on its own\<close>

fun job_run :: "env \<Rightarrow> nat \<Rightarrow> job \<Rightarrow> 'a init_globals_scheme \<Rightarrow> job \<times> 'a init_globals_scheme" where
  "job_run E 0 j s = (j, s)"
| "job_run E (Suc n) j s = (case job_step E True j s of None \<Rightarrow> (j, s) | Some (j, s) \<Rightarrow> job_run E n j s)"

lemma job_run_ended [simp]: "job_run E n (Ended r) s = (Ended r, s)"
  by (cases n) simp_all

lemma opens_total:
  assumes "hkdf_laws E"
  obtains r where "opens E m root = Done r"
proof -
  obtain k where "derive_message_key_from_root E root (m_epoch m) (m_seq m) = Done k"
    using assms by (rule derive_message_key_total)
  then show thesis by (intro that) (simp add: opens_def)
qed

lemma recv_alone:
  "hkdf_laws E \<Longrightarrow> try_decrypt_with_evolution E (m_wire m) (m_stamp m) (m_dir m) (m_epoch m) (m_seq m) (m_time m) s = Done (r, s') \<Longrightarrow>
     job_run E 4 (Recv_curr m) s = (Ended (Received m r), s')"
  by (auto simp: try_decrypt_with_evolution_def opens_def numeral_eq_Suc Let_def split: outcome.splits option.splits if_splits prod.splits)

lemma start_alone: "start_evolution E s = Done (rc, s') \<Longrightarrow> job_run E 4 Start_curr s = (Ended (Started rc), s')"
  by (auto simp: start_evolution_def numeral_eq_Suc Let_def split: outcome.splits option.splits if_splits prod.splits)

lemma apply_alone: "apply_peer_kem E ct s = Done (rc, s') \<Longrightarrow> job_run E 3 (Apply_sk ct) s = (Ended (Applied rc), s')"
  by (auto simp: apply_peer_kem_def numeral_eq_Suc Let_def split: outcome.splits option.splits if_splits)

lemma roll_alone: "job_run E (Suc n) (Recover_roll n e) s = (case recover_loop E n e s of (r, s') \<Rightarrow> (Ended (Recovered r), s'))"
  by (induction n arbitrary: e s) (simp_all add: Let_def split: prod.split)

lemma recover_alone:
  "recover_after_loss E t s = (r, s') \<Longrightarrow> job_run E (unat (t - epoch_id s) + 2) (Recover_epoch t) s = (Ended (Recovered r), s')"
  using roll_alone [of E "unat (t - epoch_id s)" "epoch_id s" s]
  by (auto simp: recover_after_loss_def read_epoch_id_def Let_def split: if_splits)

lemma init_alone:
  "initialise_root_state E a b pk s = (rc, s') \<Longrightarrow> job_run E 3 (Init_pk a b pk) s = (Ended (Initialised rc), s')"
  by (auto simp: initialise_root_state_def numeral_eq_Suc Let_def split: if_splits)

lemma pending_some: "hkdf_laws E \<Longrightarrow> derive_pending_key E ss c \<noteq> None"
  by (rule derive_pending_key_total [of E ss c]) simp_all

lemma start_total: "hkdf_laws E \<Longrightarrow> \<exists>rc s'. start_evolution E s = Done (rc, s')"
  by (auto simp: start_evolution_def Let_def pending_some split: option.split prod.split)

lemma apply_total: "hkdf_laws E \<Longrightarrow> \<exists>rc s'. apply_peer_kem E ct s = Done (rc, s')"
  by (auto simp: apply_peer_kem_def Let_def pending_some split: option.split)

lemma decrypt_total:
  assumes "hkdf_laws E"
  shows "\<exists>r s'. try_decrypt_with_evolution E wire stamp dir e q t s = Done (r, s')"
proof -
  obtain k where "derive_message_key_from_root E (root_curr s) e q = Done k" using assms by (rule derive_message_key_total)
  moreover obtain k' where "derive_message_key_from_root E (the (root_pend s)) e q = Done k'"
    using assms by (rule derive_message_key_total)
  ultimately show ?thesis
    by (auto simp: try_decrypt_with_evolution_def Let_def split: option.split prod.split)
qed



subsection \<open>Interleaved calls\<close>

definition roots :: "'a root_globals_scheme \<Rightarrow> bytes set" where
  "roots s = insert (root_curr s) (set_option (root_pend s))"

abbreviation pk_free :: "job list \<Rightarrow> bool" where
  "pk_free js \<equiv> \<not> list_ex holds_pk js"

inductive threads_step ::
  "env \<Rightarrow> job list \<times> bytes set \<times> 'a init_globals_scheme \<Rightarrow> job list \<times> bytes set \<times> 'a init_globals_scheme \<Rightarrow> bool" for E where
  th_call: "fresh_job j \<Longrightarrow> threads_step E (js, seen, s) (js @ [j], seen, s)"
| th_job: "i < length js \<Longrightarrow> job_step E (pk_free js) (js ! i) s = Some (j, s') \<Longrightarrow>
    threads_step E (js, seen, s) (js[i := j], seen \<union> roots s', s')"
| th_commit: "evolution_commit E s = (rc, s') \<Longrightarrow> threads_step E (js, seen, s) (js, seen \<union> roots s', s')"
| th_keypair: "generate_bob_keypair E out_pk out_sk s = Done (rc, p, q, s') \<Longrightarrow> threads_step E (js, seen, s) (js, seen, s')"
| th_peer: "pk_free js \<Longrightarrow> threads_step E (js, seen, s) (js, seen, set_peer_public_key E pk s)"
| th_issue: "threads_step E (js, seen, s) (js, seen, snd (next_msg_seq s))"

inductive_cases threads_stepE: "threads_step E (js, seen, s) c"

text \<open>The plaintext was authenticated under a root key that has been current or pending.\<close>

definition authentic :: "env \<Rightarrow> bytes set \<Rightarrow> message \<Rightarrow> bytes \<Rightarrow> bool" where
  "authentic E seen m pt \<longleftrightarrow> (\<exists>root. root \<in> seen \<and> opens E m root = Done (Some pt))"

fun job_ok :: "env \<Rightarrow> bytes set \<Rightarrow> job \<Rightarrow> bool" where
  "job_ok E seen (Recv_epoch m root) \<longleftrightarrow> root \<in> seen"
| "job_ok E seen (Recv_commit m pt) \<longleftrightarrow> authentic E seen m pt"
| "job_ok E seen (Start_pend d c) \<longleftrightarrow> length d = 32"
| "job_ok E seen (Apply_pend d) \<longleftrightarrow> length d = 32"
| "job_ok E seen (Init_curr key) \<longleftrightarrow> length key = 32"
| "job_ok E seen (Ended (Received m (Some (pt, c)))) \<longleftrightarrow> authentic E seen m pt"
| "job_ok E seen (Ended (Started rc)) \<longleftrightarrow> rc \<noteq> 5"
| "job_ok E seen (Ended Panicked) \<longleftrightarrow> False"
| "job_ok E seen _ \<longleftrightarrow> True"

lemma job_ok_mono: "job_ok E seen j \<Longrightarrow> seen \<subseteq> seen' \<Longrightarrow> job_ok E seen' j"
  by (induction E seen j rule: job_ok.induct) (auto simp: authentic_def)

definition threads_inv :: "env \<Rightarrow> job list \<times> bytes set \<times> 'a init_globals_scheme \<Rightarrow> bool" where
  "threads_inv E = (\<lambda>(js, seen, s). key_inv E s \<and> roots s \<subseteq> seen \<and> list_all (job_ok E seen) js)"

lemma opens_some: "hkdf_laws E \<Longrightarrow> opens E m root \<noteq> Panic"
  by (rule opens_total [of E m root]) simp_all

lemma pending_length: "hkdf_laws E \<Longrightarrow> derive_pending_key E ss c = Some d \<Longrightarrow> length d = 32"
  by (rule derive_pending_key_total [of E ss c]) simp_all

lemma authenticI: "root \<in> seen \<Longrightarrow> opens E m root = Done (Some pt) \<Longrightarrow> authentic E seen m pt"
  by (auto simp: authentic_def)

lemma set_pend_key_inv: "key_inv E s \<Longrightarrow> length d = 32 \<Longrightarrow> key_inv E (set_root_state_pend (Some d) s)"
  by (simp add: key_inv_def root_wf_def pk_bound_def set_root_state_pend_def)

lemma roll_key_inv:
  assumes "hkdf_laws E" and "key_inv E s" and "roll_epoch_forward E salt info s = (r, s')"
  shows "key_inv E s'"
proof -
  have "pk_bound E (snd (roll_epoch_forward E salt info s))"
    using assms(2) by (simp add: key_inv_def roll_epoch_forward_def reset_msg_counter_def pk_bound_def Let_def split: option.split)
  moreover have "root_wf (snd (roll_epoch_forward E salt info s))"
    using assms(1,2) by (simp add: key_inv_def roll_epoch_forward_root_wf)
  ultimately show ?thesis using assms(3) by (simp add: key_inv_def)
qed

lemma recv_step_ok:
  assumes "hkdf_laws E" and "key_inv E s" and "roots s \<subseteq> seen" and "job_ok E seen j" and "recv_step E j s = Some (j', s')"
  shows "key_inv E s' \<and> job_ok E seen j'"
  using assms(2-5) commit_key_inv [of E s]
  by (cases j)
    (auto simp: opens_some [OF assms(1)] roots_def Let_def split: outcome.splits option.splits if_splits prod.splits
      elim: authenticI)

lemma evolution_step_ok:
  assumes "hash_sizes E" and "hkdf_laws E" and "key_inv E s" and "job_ok E seen j" and "evolution_step E free j s = Some (j', s')"
  shows "key_inv E s' \<and> job_ok E seen j'"
proof (cases j)
  case (Start_pk root)
  with assms(3,5) pk_bound_hash_diff [OF assms(1), of s] pending_length [OF assms(2)] show ?thesis
    by (auto simp: pending_some [OF assms(2)] key_inv_def root_wf_def pk_bound_def Let_def split: option.splits if_splits prod.splits)
qed (use assms(3-5) set_pend_key_inv [of E s] in \<open>auto simp: key_inv_def root_wf_def pk_bound_def\<close>)

lemma kem_step_ok:
  assumes "hkdf_laws E" and "key_inv E s" and "job_ok E seen j" and "kem_step E j s = Some (j', s')"
  shows "key_inv E s' \<and> job_ok E seen j'"
  using assms(2-4) pending_length [OF assms(1)] set_pend_key_inv [of E s]
  by (cases j) (auto simp: pending_some [OF assms(1)] Let_def split: option.splits if_splits)

lemma recover_step_ok:
  assumes "hkdf_laws E" and "key_inv E s" and "recover_step E j s = Some (j', s')"
  shows "key_inv E s' \<and> job_ok E seen j'"
proof (cases j)
  case (Recover_roll n e)
  with assms(2,3) show ?thesis by (cases n) (auto dest: roll_key_inv [OF assms(1,2)] split: prod.splits if_splits)
qed (use assms(2,3) in \<open>auto simp: Let_def split: if_splits\<close>)

lemma initialise_step_ok:
  assumes "hash_sizes E" and "key_inv E s" and "job_ok E seen j" and "initialise_step E j s = Some (j', s')"
  shows "key_inv E s' \<and> job_ok E seen j'"
  using assms
  by (cases j) (auto simp: key_inv_def root_wf_def pk_bound_def hash_sizes_def store_bob_public_key_def Let_def split: if_splits)

lemma job_step_dispatch:
  "job_step E free j s = Some r \<Longrightarrow> recv_step E j s = Some r \<or> evolution_step E free j s = Some r \<or> kem_step E j s = Some r \<or>
     recover_step E j s = Some r \<or> initialise_step E j s = Some r"
  by (cases j) (auto simp del: recv_step.simps evolution_step.simps kem_step.simps recover_step.simps initialise_step.simps)

lemma job_step_ok:
  assumes "hash_sizes E" and "hkdf_laws E" and "key_inv E s" and "roots s \<subseteq> seen" and "job_ok E seen j"
    and "job_step E free j s = Some (j', s')"
  shows "key_inv E s' \<and> job_ok E seen j'"
  using job_step_dispatch [OF assms(6)] recv_step_ok [OF assms(2-5)] evolution_step_ok [OF assms(1-3,5)] kem_step_ok [OF assms(2,3,5)]
    recover_step_ok [OF assms(2,3)] initialise_step_ok [OF assms(1,3,5)] by blast

lemma threads_inv_step:
  assumes "hash_sizes E" and "hkdf_laws E" and "threads_step E c c'" and "threads_inv E c"
  shows "threads_inv E c'"
  using assms(3)
proof cases
  case (th_call j js seen s)
  then have "job_ok E seen j" by (cases j) simp_all
  with th_call assms(4) show ?thesis by (simp add: threads_inv_def)
next
  case (th_job i js s j s' seen)
  then have inv: "key_inv E s" "roots s \<subseteq> seen" "list_all (job_ok E seen) js" using assms(4) by (simp_all add: threads_inv_def)
  moreover have "job_ok E seen (js ! i)" using inv(3) th_job(3) by (simp add: list_all_length)
  ultimately have j: "key_inv E s'" "job_ok E seen j" using job_step_ok [OF assms(1,2) _ _ _ th_job(4)] by blast+
  have "list_all (job_ok E (seen \<union> roots s')) (js[i := j])"
    using inv(3) j(2) job_ok_mono [of E seen _ "seen \<union> roots s'"] th_job(3)
    by (auto simp: list_all_length nth_list_update)
  with j(1) th_job(2) show ?thesis by (simp add: threads_inv_def)
next
  case (th_commit s rc s' js seen)
  then have "key_inv E s'" using assms(4) commit_key_inv [of E s] by (simp add: threads_inv_def evolution_commit_def)
  moreover have "list_all (job_ok E (seen \<union> roots s')) js"
    using th_commit(1) assms(4) job_ok_mono [of E seen _ "seen \<union> roots s'"] by (auto simp: threads_inv_def list_all_iff)
  ultimately show ?thesis using th_commit(2) by (simp add: threads_inv_def)
next
  case (th_keypair out_pk out_sk s rc p q s' js seen)
  have frame: "same_position s s' \<and> derived_pending E s s' \<and> same_peer s s'" by (rule keypair_frame [OF th_keypair(3)])
  have "root_pend s' = root_pend s"
    using th_keypair(3) by (auto simp: generate_bob_keypair_def Let_def split: prod.splits outcome.splits)
  then have "roots s' = roots s" using frame by (simp add: roots_def same_position_def)
  with th_keypair(1,2) assms(4) frame_key_inv [OF assms(2) frame] show ?thesis by (simp add: threads_inv_def)
next
  case (th_peer js seen s pk)
  have "key_inv E (set_peer_public_key E pk s)" if "key_inv E s"
    using that set_peer_public_key_pk_bound [of E pk s] by (simp add: key_inv_def root_wf_def set_peer_public_key_def)
  moreover have "roots (set_peer_public_key E pk s) = roots s" by (simp add: roots_def set_peer_public_key_def)
  ultimately show ?thesis using th_peer(1,2) assms(4) by (simp add: threads_inv_def)
next
  case (th_issue js seen s)
  with assms(4) show ?thesis by (simp add: threads_inv_def next_msg_seq_def roots_def key_inv_def root_wf_def pk_bound_def)
qed

lemma threads_inv_reach:
  assumes "hash_sizes E" and "hkdf_laws E"
  shows "(threads_step E)\<^sup>*\<^sup>* c c' \<Longrightarrow> threads_inv E c \<Longrightarrow> threads_inv E c'"
  by (induction rule: rtranclp_induct) (simp_all add: threads_inv_step [OF assms])

text \<open>A call waits only for the lock of the public key, and whoever holds that lock can go on.\<close>

lemma roll_moves: "recover_step E (Recover_roll n e) s \<noteq> None"
  by (cases n) (simp_all add: Let_def split: prod.split)

lemma job_waits: "job_step E free j s = None \<Longrightarrow> (\<exists>r. j = Ended r) \<or> (\<exists>root. j = Start_pk root) \<and> \<not> free"
  by (induction E free j s rule: job_step.induct)
    (auto simp: Let_def roll_moves split: outcome.splits option.splits if_splits prod.splits)

lemma some_call_moves:
  assumes "j \<in> set js" and "\<nexists>r. j = Ended r"
  shows "\<exists>i j' s'. i < length js \<and> job_step E (pk_free js) (js ! i) s = Some (j', s')"
proof (cases "pk_free js")
  case True
  with assms(2) have "job_step E (pk_free js) j s \<noteq> None" using job_waits [of E "pk_free js" j s] by blast
  moreover obtain i where "i < length js" "js ! i = j" using assms(1) by (auto simp: in_set_conv_nth)
  ultimately show ?thesis by auto
next
  case False
  then obtain i where i: "i < length js" "holds_pk (js ! i)" by (auto simp: list_ex_length)
  have "\<exists>j' s'. job_step E (pk_free js) (js ! i) s = Some (j', s')" using i(2) by (cases "js ! i") simp_all
  with i(1) show ?thesis by blast
qed



subsection \<open>No pair is issued twice\<close>

text \<open>Runs record the pairs of epoch and sequence number handed to senders, below the wrap-around of both.  The pairing is not made anew
  during a run: initialisation starts the epochs of another root key.\<close>

definition below_wrap :: "'a root_globals_scheme \<Rightarrow> bool" where
  "below_wrap s \<longleftrightarrow> epoch_id s \<noteq> U32_MAX \<and> msg_counter s \<noteq> U64_MAX"

fun initialising :: "job \<Rightarrow> bool" where
  "initialising (Init_pk a b pk) = True"
| "initialising (Init_curr key) = True"
| "initialising Init_epoch = True"
| "initialising _ = False"

inductive threads_run :: "env \<Rightarrow> job list \<times> bytes set \<times> 'a init_globals_scheme \<Rightarrow> (u32 \<times> u64) list \<Rightarrow>
    job list \<times> bytes set \<times> 'a init_globals_scheme \<Rightarrow> bool" for E where
  run_done: "threads_run E c [] c"
| run_issue: "below_wrap s \<Longrightarrow> next_msg_seq s = (q, s1) \<Longrightarrow> threads_run E (js, seen, s1) ps c \<Longrightarrow>
    threads_run E (js, seen, s) ((read_epoch_id s, q) # ps) c"
| run_step: "below_wrap s \<Longrightarrow> \<not> list_ex initialising js \<Longrightarrow> threads_step E (js, seen, s) c1 \<Longrightarrow> threads_run E c1 ps c \<Longrightarrow>
    threads_run E (js, seen, s) ps c"

definition ahead :: "'a root_globals_scheme \<Rightarrow> u32 \<times> u64 \<Rightarrow> bool" where
  "ahead s = (\<lambda>(e, q). unat (epoch_id s) < unat e \<or> e = epoch_id s \<and> unat (msg_counter s) \<le> unat q)"

lemma ahead_trans: "ahead s (epoch_id s', msg_counter s') \<Longrightarrow> ahead s' p \<Longrightarrow> ahead s p"
  by (auto simp: ahead_def)

lemma advance_ahead:
  assumes "epoch_id s \<noteq> U32_MAX"
  shows "commit_evolution E s = (r, s') \<Longrightarrow> ahead s (epoch_id s', msg_counter s')"
    and "roll_epoch_forward E salt info s = (r, s') \<Longrightarrow> ahead s (epoch_id s', msg_counter s')"
  using commit.position_grows [OF assms, of E] roll.position_grows [OF assms, of E salt info] by (auto simp: ahead_def)

lemma job_ahead:
  assumes "epoch_id s \<noteq> U32_MAX" and "\<not> initialising j" and "job_step E free j s = Some (j', s')"
  shows "ahead s (epoch_id s', msg_counter s')"
proof (cases "(\<exists>m pt. j = Recv_commit m pt) \<or> (\<exists>n e. j = Recover_roll (Suc n) e)")
  case True
  with assms(3) show ?thesis by (auto dest: advance_ahead [OF assms(1)] split: prod.splits)
next
  case False
  then have "epoch_id s' = epoch_id s \<and> msg_counter s' = msg_counter s" using assms(2,3)
    by (induction E free j s rule: job_step.induct)
      (auto simp: Let_def set_root_state_pend_def split: outcome.splits option.splits if_splits prod.splits elim!: recover_step.elims)
  then show ?thesis by (simp add: ahead_def)
qed

lemma next_ahead: "below_wrap s \<Longrightarrow> ahead s (epoch_id (snd (next_msg_seq s)), msg_counter (snd (next_msg_seq s)))"
  by (simp add: ahead_def below_wrap_def next_msg_seq_def unat_plus_one)

lemma threads_ahead:
  assumes "below_wrap s" and "\<not> list_ex initialising js" and "threads_step E (js, seen, s) (js', seen', s')"
  shows "ahead s (epoch_id s', msg_counter s')"
  using assms(3)
proof cases
  case (th_job i j)
  then have "\<not> initialising (js ! i)" using assms(2) by (auto simp: list_ex_length)
  from job_ahead [OF _ this th_job(4)] assms(1) show ?thesis by (simp add: below_wrap_def)
next
  case (th_commit rc)
  with advance_ahead(1) [of s E rc s'] assms(1) show ?thesis by (simp add: below_wrap_def evolution_commit_def)
next
  case (th_keypair out_pk out_sk rc p q)
  from keypair_frame [OF th_keypair(3)] show ?thesis by (simp add: same_position_def ahead_def)
next
  case th_issue
  then show ?thesis using next_ahead [OF assms(1)] by simp
qed (simp_all add: ahead_def set_peer_public_key_def)

lemma run_pairs_ahead: "threads_run E c ps c' \<Longrightarrow> p \<in> set ps \<Longrightarrow> ahead (snd (snd c)) p"
proof (induction rule: threads_run.induct)
  case (run_issue s q s1 js seen ps c)
  then show ?case using next_ahead [OF run_issue(1)] ahead_trans [of s s1 p] by (auto simp: next_msg_seq_def ahead_def)
next
  case (run_step s js seen c1 ps c)
  then show ?case using threads_ahead [of s js E seen "fst c1" "fst (snd c1)" "snd (snd c1)"] ahead_trans [of s "snd (snd c1)" p] by auto
qed simp

lemma run_distinct: "threads_run E c ps c' \<Longrightarrow> distinct ps"
proof (induction rule: threads_run.induct)
  case (run_issue s q s1 js seen ps c)
  have "unat (msg_counter s + 1) = Suc (unat (msg_counter s))" using run_issue(1) by (simp add: below_wrap_def unat_plus_one)
  with run_issue(2) have "(epoch_id s, q) \<notin> set ps"
    using run_pairs_ahead [OF run_issue(3), of "(epoch_id s, q)"] by (auto simp: next_msg_seq_def ahead_def)
  with run_issue show ?case by simp
qed simp_all


lemma issue_one:
  "below_wrap s \<Longrightarrow> threads_run E (js, seen, snd (next_msg_seq s)) ps c \<Longrightarrow>
     threads_run E (js, seen, s) ((epoch_id s, msg_counter s) # ps) c"
  using run_issue [of s "msg_counter s" "snd (next_msg_seq s)" E js seen ps c] by (simp add: next_msg_seq_def)

lemma demo_issue_run: "\<exists>c. threads_run demo_env ([], {}, demo_init) [(0, 1), (1, 1)] c"
proof -
  let ?s1 = "snd (next_msg_seq demo_init)" and ?s2 = "snd (evolution_commit demo_env (snd (next_msg_seq demo_init)))"
  let ?c = "([], {} \<union> roots ?s2, snd (next_msg_seq ?s2))"
  have s: "epoch_id demo_init = 0" "msg_counter demo_init = 1" "epoch_id ?s2 = 1" "msg_counter ?s2 = 1"
    "epoch_id ?s1 = 0" "msg_counter ?s1 = 2"
    by (simp_all add: demo_init_defs next_msg_seq_def evolution_commit_def commit_evolution_def reset_msg_counter_def)
  have b: "below_wrap ?s2" "below_wrap ?s1" "below_wrap demo_init" unfolding below_wrap_def s by simp_all
  have "threads_run demo_env ([], {} \<union> roots ?s2, ?s2) [(epoch_id ?s2, msg_counter ?s2)] ?c" by (rule issue_one [OF b(1) run_done])
  then have "threads_run demo_env ([], {} \<union> roots ?s2, ?s2) [(1, 1)] ?c" unfolding s .
  then have "threads_run demo_env ([], {}, ?s1) [(1, 1)] ?c"
    by (intro run_step [OF b(2) _ th_commit [OF prod.collapse [symmetric]]]) simp_all
  from issue_one [OF b(3) this] show ?thesis unfolding s by blast
qed


text \<open>The pair has to be read in one go.  The number and the epoch come from two exported calls: a sender that draws its number before a
  commit and reads the epoch after it uses a pair that is issued again, to whom draws as many numbers in the new epoch.\<close>

lemma draw_many: "msg_counter s = 1 \<Longrightarrow> msg_counter (((snd \<circ> next_msg_seq) ^^ n) s) = 1 + of_nat n \<and>
    epoch_id (((snd \<circ> next_msg_seq) ^^ n) s) = epoch_id s"
  by (induction n) (simp_all add: next_msg_seq_def)

lemma split_pair_repeats:
  fixes s :: "'a root_globals_scheme"
  assumes "next_msg_seq s = (q, s1)" and "q \<noteq> 0" and "commit_evolution E s1 = (0, s2)"
  shows "\<exists>n. fst (next_msg_seq (((snd \<circ> next_msg_seq) ^^ n) s2)) = q \<and>
    read_epoch_id (((snd \<circ> next_msg_seq) ^^ n) s2) = read_epoch_id s2"
proof -
  have "msg_counter s2 = 1" using assms(3) by (auto simp: commit_evolution_def reset_msg_counter_def Let_def split: option.splits)
  from draw_many [OF this, of "unat (q - 1)"] show ?thesis
    by (intro exI [of _ "unat (q - 1)"]) (simp add: next_msg_seq_def read_epoch_id_def)
qed

subsection \<open>Races\<close>

lemma holder_ignores_lock: "holds_pk j \<Longrightarrow> job_step E free j s = job_step E free' j s"
  by (cases j) simp_all

lemma step_in_pool:
  assumes "i < length js" and "\<forall>k. k < length js \<and> k \<noteq> i \<longrightarrow> \<not> holds_pk (js ! k)"
  shows "job_step E (pk_free (js[i := j])) j s = job_step E True j s"
proof (cases "holds_pk j")
  case True
  then show ?thesis by (rule holder_ignores_lock)
next
  case False
  with assms have "pk_free (js[i := j])" by (auto simp: list_ex_length nth_list_update)
  then show ?thesis by simp
qed

lemma run_in_pool:
  assumes "i < length js" and "\<forall>k. k < length js \<and> k \<noteq> i \<longrightarrow> \<not> holds_pk (js ! k)"
  shows "job_run E n j s = (j', s') \<Longrightarrow> \<exists>seen'. (threads_step E)\<^sup>*\<^sup>* (js[i := j], seen, s) (js[i := j'], seen', s')"
proof (induction n arbitrary: j s seen)
  case 0
  then show ?case by auto
next
  case (Suc n)
  show ?case
  proof (cases "job_step E True j s")
    case None
    with Suc.prems show ?thesis by auto
  next
    case (Some p)
    obtain j1 s1 where p: "p = (j1, s1)" by (cases p)
    with Some have "job_step E (pk_free (js[i := j])) (js[i := j] ! i) s = Some (j1, s1)" using assms by (simp add: step_in_pool)
    with assms(1) have "threads_step E (js[i := j], seen, s) (js[i := j1], seen \<union> roots s1, s1)"
      using th_job [of i "js[i := j]" E s j1 s1 seen] by simp
    moreover have "job_run E n j1 s1 = (j', s')" using Suc.prems Some p by simp
    ultimately show ?thesis using Suc.IH [of j1 s1 "seen \<union> roots s1"] by (meson converse_rtranclp_into_rtranclp)
  qed
qed

lemma two_calls:
  assumes "fresh_job a" and "fresh_job b"
  shows "(threads_step E)\<^sup>*\<^sup>* ([], seen, s) ([a, b], seen, s)"
proof -
  have "threads_step E ([], seen, s) ([a], seen, s)" using th_call [OF assms(1), of E "[]"] by simp
  moreover have "threads_step E ([a], seen, s) ([a, b], seen, s)" using th_call [OF assms(2), of E "[a]"] by simp
  ultimately show ?thesis by (meson converse_rtranclp_into_rtranclp rtranclp.rtrancl_refl)
qed

lemma run_first:
  assumes "job_run E n a s = (a', s')" and "\<not> holds_pk b"
  shows "\<exists>seen'. (threads_step E)\<^sup>*\<^sup>* ([a, b], seen, s) ([a', b], seen', s')"
proof -
  have "\<forall>k. k < length [a, b] \<and> k \<noteq> 0 \<longrightarrow> \<not> holds_pk ([a, b] ! k)" using assms(2) by (auto simp: less_Suc_eq)
  from run_in_pool [OF _ this assms(1)] show ?thesis by simp
qed

lemma run_second:
  assumes "job_run E n b s = (b', s')" and "\<not> holds_pk a"
  shows "\<exists>seen'. (threads_step E)\<^sup>*\<^sup>* ([a, b], seen, s) ([a, b'], seen', s')"
proof -
  have "\<forall>k. k < length [a, b] \<and> k \<noteq> 1 \<longrightarrow> \<not> holds_pk ([a, b] ! k)" using assms(2) by (auto simp: less_Suc_eq)
  from run_in_pool [OF _ this assms(1)] show ?thesis by simp
qed

lemma read_gap:
  assumes "epoch_id s < target" and "target - epoch_id s \<le> 100000"
  shows "job_run E 1 (Recover_epoch target) s = (Recover_roll (unat (target - epoch_id s)) (epoch_id s), s)"
  using assms by (simp add: Let_def not_le not_less)

lemma roll_out:
  assumes "hkdf_laws E" and "0 < n" and "unat (epoch_id s) + n < 2 ^ 32"
  shows "job_run E (Suc n) (Recover_roll n e) s =
    (Ended (Recovered (epoch_id s + of_nat n)),
     s\<lparr>msg_counter := 1, root_curr := (roll_key E ^^ n) (root_curr s), epoch_id := epoch_id s + of_nat n\<rparr>)"
  using recover_loop_eq [OF assms(1) assms(3,2), of e] by (simp add: roll_alone del: job_run.simps)

text \<open>C24: Two recoveries to the same epoch that both read the epoch before either rolls it overshoot: each rolls the whole gap, so
  the key and the epoch end a gap beyond the target, where no message of the peer can be read, and the second call returns an epoch that
  is not its target.\<close>

theorem recover_race:
  assumes "hkdf_laws E" and "epoch_id s < target" and "target - epoch_id s \<le> 100000" and "g = unat (target - epoch_id s)"
    and "unat target + g < 2 ^ 32"
  shows "\<exists>seen'. (threads_step E)\<^sup>*\<^sup>* ([], seen, s)
    ([Ended (Recovered target), Ended (Recovered (target + of_nat g))], seen',
     s\<lparr>msg_counter := 1, root_curr := (roll_key E ^^ (2 * g)) (root_curr s), epoch_id := target + of_nat g\<rparr>)"
proof -
  let ?roll = "Recover_roll g (epoch_id s)" and ?R = "Recover_epoch target"
  let ?s1 = "s\<lparr>msg_counter := 1, root_curr := (roll_key E ^^ g) (root_curr s), epoch_id := target\<rparr>"
  have t: "epoch_id s + of_nat g = target" by (simp add: assms(4))
  have "unat (epoch_id s) + g = unat target" using assms(2,4) by (simp add: unat_sub word_less_nat_alt less_imp_le)
  then have g: "0 < g" "unat (epoch_id s) + g < 2 ^ 32" using assms(2) unsigned_less [of target] by (auto simp: word_less_nat_alt)
  have read: "job_run E 1 ?R s = (?roll, s)" using read_gap [OF assms(2,3)] by (simp only: assms(4))
  have roll1: "job_run E (Suc g) ?roll s = (Ended (Recovered target), ?s1)" using roll_out [OF assms(1) g] by (simp only: t)
  have roll2: "job_run E (Suc g) ?roll ?s1 = (Ended (Recovered (target + of_nat g)),
      s\<lparr>msg_counter := 1, root_curr := (roll_key E ^^ (2 * g)) (root_curr s), epoch_id := target + of_nat g\<rparr>)"
    using roll_out [OF assms(1) g(1), of ?s1] assms(5) by (simp add: mult_2 funpow_add del: job_run.simps)
  have "(threads_step E)\<^sup>*\<^sup>* ([], seen, s) ([?R, ?R], seen, s)" by (intro two_calls) simp_all
  moreover obtain seen1 where "(threads_step E)\<^sup>*\<^sup>* ([?R, ?R], seen, s) ([?roll, ?R], seen1, s)"
    using run_first [OF read] by (metis holds_pk.simps)
  moreover obtain seen2 where "(threads_step E)\<^sup>*\<^sup>* ([?roll, ?R], seen1, s) ([?roll, ?roll], seen2, s)"
    using run_second [OF read] by (metis holds_pk.simps)
  moreover obtain seen3 where "(threads_step E)\<^sup>*\<^sup>* ([?roll, ?roll], seen2, s) ([Ended (Recovered target), ?roll], seen3, ?s1)"
    using run_first [OF roll1] by (metis holds_pk.simps)
  ultimately show ?thesis using run_second [OF roll2, of "Ended (Recovered target)" seen3] by (meson holds_pk.simps rtranclp_trans)
qed

theorem recover_race_witness:
  "\<exists>seen'. (threads_step demo_env)\<^sup>*\<^sup>* ([], {}, demo_init)
     ([Ended (Recovered 2), Ended (Recovered 4)], seen',
      demo_init\<lparr>msg_counter := 1, root_curr := (roll_key demo_env ^^ 4) (root_curr demo_init), epoch_id := 4\<rparr>)"
proof -
  have e: "epoch_id demo_init = 0" by (simp add: demo_init_defs)
  have g: "2 = unat (2 - epoch_id demo_init)" by (simp add: e)
  have "epoch_id demo_init < 2" "2 - epoch_id demo_init \<le> 100000" by (simp_all add: e)
  from recover_race [OF demo_hkdf_laws this g, of "{}"] show ?thesis by simp
qed

text \<open>C25: The receiving call commits whatever key is pending when it commits.  A message that opens under the pending key, with an
  evolution started between the check and the commit, ends with the replacement key as the current one: the key that authenticated the
  message is gone, yet the call reports a commit and the epoch is the message's.\<close>

theorem auto_commit_race:
  assumes "m_epoch m = epoch_id s + 1" and "root_pend s = Some p1"
    and "opens E m (root_curr s) = Done None" and "opens E m p1 = Done (Some pt)"
    and "start_evolution E s = Done (0, s1)" and "root_pend s1 = Some p2"
  shows "\<exists>seen' t. (threads_step E)\<^sup>*\<^sup>* ([], seen, s) ([Ended (Received m (Some (pt, True))), Ended (Started 0)], seen', t) \<and>
    root_curr t = p2 \<and> root_pend t = None \<and> epoch_id t = m_epoch m"
proof -
  let ?R = "Recv_curr m" and ?C = "Recv_commit m pt" and ?D = "Ended (Started 0)"
  let ?t = "s1\<lparr>msg_counter := 1, root_curr := p2, root_pend := None, epoch_id := epoch_id s1 + 1\<rparr>"
  have recv: "job_run E 3 ?R s = (?C, s)" using assms(1-4) by (simp add: numeral_3_eq_3)
  have start: "job_run E 4 Start_curr s = (?D, s1)" by (rule start_alone [OF assms(5)])
  have commit: "job_run E 1 ?C s1 = (Ended (Received m (Some (pt, True))), ?t)"
    using commit_evolution_Some [OF assms(6), of E] by simp
  have e: "epoch_id s1 = epoch_id s" using start_frame [OF assms(5)] by (simp add: same_position_def)
  have "(threads_step E)\<^sup>*\<^sup>* ([], seen, s) ([?R, Start_curr], seen, s)" by (intro two_calls) simp_all
  moreover obtain seen1 where "(threads_step E)\<^sup>*\<^sup>* ([?R, Start_curr], seen, s) ([?C, Start_curr], seen1, s)"
    using run_first [OF recv] by (metis holds_pk.simps)
  moreover obtain seen2 where "(threads_step E)\<^sup>*\<^sup>* ([?C, Start_curr], seen1, s) ([?C, ?D], seen2, s1)"
    using run_second [OF start] by (metis holds_pk.simps)
  moreover obtain seen3 where "(threads_step E)\<^sup>*\<^sup>* ([?C, ?D], seen2, s1) ([Ended (Received m (Some (pt, True))), ?D], seen3, ?t)"
    using run_first [OF commit] by (metis holds_pk.simps)
  ultimately have "(threads_step E)\<^sup>*\<^sup>* ([], seen, s) ([Ended (Received m (Some (pt, True))), ?D], seen3, ?t)"
    by (meson rtranclp_trans)
  then show ?thesis using e assms(1) by (intro exI [of _ seen3] exI [of _ ?t]) simp
qed

definition demo_message :: message where
  "demo_message = \<lparr>m_wire = zeros 12 @ [7] @ replicate 16 1, m_stamp = zeros 32, m_dir = True, m_epoch = 1, m_seq = 1, m_time = 5\<rparr>"

definition demo_paired :: init_globals where
  "demo_paired = set_peer_public_key demo_env (replicate 1568 3) demo_init"

lemma demo_paired_start:
  "\<exists>s1. start_evolution demo_env demo_paired = Done (0, s1) \<and> root_pend s1 = Some (replicate 32 4)"
proof -
  have "bob_public_key demo_paired = replicate 1568 3" "peer_pk_hash demo_paired = demo_pad32 (replicate 1568 3)" "root_curr demo_paired = zeros 32"
    by (simp_all add: demo_paired_def set_peer_public_key_def demo_init_defs demo_env_def)
  then show ?thesis
    by (simp add: hash_diff_refl start_evolution_def derive_pending_key_def demo_env_def Let_def)
qed

theorem auto_commit_race_witness:
  "\<exists>seen' t. (threads_step demo_env)\<^sup>*\<^sup>* ([], {}, demo_paired)
     ([Ended (Received demo_message (Some ([7], True))), Ended (Started 0)], seen', t) \<and>
     root_pend demo_paired = Some (replicate 32 1) \<and> root_curr t = replicate 32 4 \<and> root_pend t = None \<and> epoch_id t = 1"
proof -
  have s: "epoch_id demo_paired = 0" "root_pend demo_paired = Some (replicate 32 1)" "root_curr demo_paired = zeros 32"
    by (simp_all add: demo_paired_def set_peer_public_key_def demo_init_defs)
  have "m_epoch demo_message = epoch_id demo_paired + 1" by (simp add: s demo_message_def)
  moreover have "opens demo_env demo_message (root_curr demo_paired) = Done None" "opens demo_env demo_message (replicate 32 1) = Done (Some [7])"
    by (simp_all add: s opens_def demo_message_def derive_message_key_from_root_def decrypt_def demo_env_def demo_open_def demo_tag_def)
  moreover obtain s1 where "start_evolution demo_env demo_paired = Done (0, s1)" "root_pend s1 = Some (replicate 32 4)"
    using demo_paired_start by blast
  ultimately show ?thesis
    using auto_commit_race [OF _ s(2), of demo_message demo_env "[7]" s1 "replicate 32 4" "{}"] s(2) by (simp add: demo_message_def)
qed

end
