(* ===== verification/Os_File.thy ===== *)
theory Os_File
  imports World
begin

text \<open>
  The part of \<^verbatim>\<open>std::fs\<close> and \<^verbatim>\<open>libc\<close> the vault uses, over the file system of \<open>world\<close>.  Every call consumes one
  number of \<open>os_calls\<close>; \<open>os_fault\<close> says which calls fail, with which error, and how much of a failing
  write has reached the file.  Data written is in \<open>content\<close> at once and in \<open>durable\<close> after
  \<^verbatim>\<open>sync_all\<close>.  Closing a descriptor has no effect on the file.  Directory entries are durable when made.
\<close>

type_synonym ('a, 'w) io = "'w world_scheme \<Rightarrow> (io_error + 'a) \<times> 'w world_scheme"

definition io_return :: "'a \<Rightarrow> ('a, 'w) io" where
  "io_return x w = (Inr x, w)"

definition io_fail :: "io_error \<Rightarrow> ('a, 'w) io" where
  "io_fail e w = (Inl e, w)"

text \<open>The \<^verbatim>\<open>?\<close> operator: continue with the value, or return the error.\<close>

definition io_bind :: "('a, 'w) io \<Rightarrow> ('a \<Rightarrow> ('b, 'w) io) \<Rightarrow> ('b, 'w) io" where
  "io_bind m f w = (case m w of (Inl e, w) \<Rightarrow> (Inl e, w) | (Inr x, w) \<Rightarrow> f x w)"

definition os_tick :: "'w world_scheme \<Rightarrow> 'w world_scheme" where
  "os_tick w = w\<lparr>os_calls := Suc (os_calls w)\<rparr>"

text \<open>A call that either fails without effect or applies \<open>f\<close>.\<close>

definition os_call :: "env \<Rightarrow> ('a, 'w) io \<Rightarrow> ('a, 'w) io" where
  "os_call E f w =
     (case os_fault E (os_calls w) of Some (e, _) \<Rightarrow> (Inl e, os_tick w) | None \<Rightarrow> f (os_tick w))"

definition os_now :: "env \<Rightarrow> 'w world_scheme \<Rightarrow> int" where
  "os_now E w = os_clock E (os_calls w)"

definition lookup_path :: "bytes \<Rightarrow> (nat, 'w) io" where
  "lookup_path path w =
     (if 0 \<in> set path then (Inl InvalidInput, w)
      else case paths w path of None \<Rightarrow> (Inl NotFound, w) | Some i \<Rightarrow> (Inr i, w))"

definition fs_len :: "env \<Rightarrow> bytes \<Rightarrow> (nat, 'w) io" where
  "fs_len E path = os_call E (io_bind (lookup_path path) (\<lambda>i w. (Inr (length (content (inodes w i))), w)))"

definition fs_times :: "env \<Rightarrow> bytes \<Rightarrow> (int \<times> int, 'w) io" where
  "fs_times E path =
     os_call E (io_bind (lookup_path path) (\<lambda>i w. (Inr (atime (inodes w i), mtime (inodes w i)), w)))"

definition path_exists :: "env \<Rightarrow> bytes \<Rightarrow> 'w world_scheme \<Rightarrow> bool \<times> 'w world_scheme" where
  "path_exists E path w = (case fs_len E path w of (Inl _, w) \<Rightarrow> (False, w) | (Inr _, w) \<Rightarrow> (True, w))"

definition new_fd :: "nat \<Rightarrow> (nat, 'w) io" where
  "new_fd i w = (Inr (next_fd w), w\<lparr>fds := (fds w)(next_fd w := \<lparr>fd_ino = i, fd_pos = 0\<rparr>), next_fd := Suc (next_fd w)\<rparr>)"

definition open_rw :: "env \<Rightarrow> bytes \<Rightarrow> (nat, 'w) io" where
  "open_rw E path = os_call E (io_bind (lookup_path path) new_fd)"

definition open_create_new :: "env \<Rightarrow> bytes \<Rightarrow> (nat, 'w) io" where
  "open_create_new E path = os_call E (\<lambda>w.
     if 0 \<in> set path then (Inl InvalidInput, w)
     else if paths w path \<noteq> None then (Inl AlreadyExists, w)
     else
       let i = next_ino w; now = os_now E w
       in new_fd i (w\<lparr>paths := (paths w)(path \<mapsto> i), next_ino := Suc i,
            inodes := (inodes w)(i := \<lparr>content = [], durable = [], atime = now, mtime = now\<rparr>)\<rparr>))"

definition remove_file :: "env \<Rightarrow> bytes \<Rightarrow> (unit, 'w) io" where
  "remove_file E path = os_call E (io_bind (lookup_path path) (\<lambda>_ w. (Inr (), w\<lparr>paths := (paths w)(path := None)\<rparr>)))"

definition set_pos :: "nat \<Rightarrow> nat \<Rightarrow> 'w world_scheme \<Rightarrow> 'w world_scheme" where
  "set_pos fd p w = w\<lparr>fds := (fds w)(fd := (fds w fd)\<lparr>fd_pos := p\<rparr>)\<rparr>"

definition upd_inode :: "nat \<Rightarrow> (inode \<Rightarrow> inode) \<Rightarrow> 'w world_scheme \<Rightarrow> 'w world_scheme" where
  "upd_inode i f w = w\<lparr>inodes := (inodes w)(i := f (inodes w i))\<rparr>"

definition seek_start :: "env \<Rightarrow> nat \<Rightarrow> nat \<Rightarrow> (unit, 'w) io" where
  "seek_start E fd off = os_call E (\<lambda>w. (Inr (), set_pos fd off w))"

definition read_exact :: "env \<Rightarrow> nat \<Rightarrow> nat \<Rightarrow> (bytes, 'w) io" where
  "read_exact E fd n = os_call E (\<lambda>w.
     let i = fd_ino (fds w fd); p = fd_pos (fds w fd); c = content (inodes w i); now = os_now E w
     in if p + n \<le> length c then (Inr (subslice p (p + n) c), upd_inode i (\<lambda>d. d\<lparr>atime := now\<rparr>) (set_pos fd (p + n) w))
        else (Inl UnexpectedEof, set_pos fd (max p (length c)) w))"

text \<open>Bytes stored at a position; a gap behind the end of the file reads as zeros.\<close>

definition store_at :: "nat \<Rightarrow> bytes \<Rightarrow> bytes \<Rightarrow> bytes" where
  "store_at p bs c = take p (c @ zeros (p - length c)) @ bs @ drop (p + length bs) c"

definition put_bytes :: "env \<Rightarrow> nat \<Rightarrow> bytes \<Rightarrow> 'w world_scheme \<Rightarrow> 'w world_scheme" where
  "put_bytes E fd bs w =
     (let i = fd_ino (fds w fd); p = fd_pos (fds w fd); now = os_now E w
      in if bs = [] then w
         else upd_inode i (\<lambda>d. d\<lparr>content := store_at p bs (content d), mtime := now\<rparr>) (set_pos fd (p + length bs) w))"

definition write_all :: "env \<Rightarrow> nat \<Rightarrow> bytes \<Rightarrow> (unit, 'w) io" where
  "write_all E fd bs w =
     (case os_fault E (os_calls w) of
        Some (e, k) \<Rightarrow> (Inl e, put_bytes E fd (take k bs) (os_tick w))
      | None \<Rightarrow> (Inr (), put_bytes E fd bs (os_tick w)))"

definition set_len :: "env \<Rightarrow> nat \<Rightarrow> nat \<Rightarrow> (unit, 'w) io" where
  "set_len E fd n = os_call E (\<lambda>w.
     let now = os_now E w
     in (Inr (), upd_inode (fd_ino (fds w fd))
           (\<lambda>d. d\<lparr>content := take n (content d) @ zeros (n - length (content d)), mtime := now\<rparr>) w))"

definition sync_all :: "env \<Rightarrow> nat \<Rightarrow> (unit, 'w) io" where
  "sync_all E fd = os_call E (\<lambda>w. (Inr (), upd_inode (fd_ino (fds w fd)) (\<lambda>d. d\<lparr>durable := content d\<rparr>) w))"

definition utimes :: "env \<Rightarrow> bytes \<Rightarrow> int \<times> int \<Rightarrow> (unit, 'w) io" where
  "utimes E path t = os_call E (io_bind (lookup_path path) (\<lambda>i w.
     let (a, m) = utimes_effect E (atime (inodes w i), mtime (inodes w i)) t
     in (Inr (), upd_inode i (\<lambda>d. d\<lparr>atime := a, mtime := m\<rparr>) w)))"

text \<open>A power failure keeps what is durable.\<close>

definition crash :: "'w world_scheme \<Rightarrow> 'w world_scheme" where
  "crash w = w\<lparr>inodes := (\<lambda>i. (inodes w i)\<lparr>content := durable (inodes w i)\<rparr>)\<rparr>"

subsection \<open>Laws of the combinators\<close>

lemma io_bind_return [simp]: "io_bind (io_return x) f = f x"
  by (rule ext) (simp add: io_bind_def io_return_def)

lemma io_bind_fail [simp]: "io_bind (io_fail e) f = io_fail e"
  by (rule ext) (simp add: io_bind_def io_fail_def)

lemma io_bind_assoc: "io_bind (io_bind m f) g = io_bind m (\<lambda>x. io_bind (f x) g)"
  by (rule ext) (simp add: io_bind_def split: prod.split sum.split)

lemma io_bind_Inr: "m w = (Inr x, w') \<Longrightarrow> io_bind m f w = f x w'"
  by (simp add: io_bind_def)

lemma io_bind_Inl: "m w = (Inl e, w') \<Longrightarrow> io_bind m f w = (Inl e, w')"
  by (simp add: io_bind_def)

lemma os_call_reliable: "os_reliable E \<Longrightarrow> os_call E f w = f (os_tick w)"
  by (simp add: os_call_def os_reliable_def)

lemma length_store_at: "length (store_at p bs c) = max (p + length bs) (length c)"
  by (simp add: store_at_def)

lemma store_at_in_range: "p + length bs \<le> length c \<Longrightarrow> store_at p bs c = copy_at p bs c"
  by (simp add: store_at_def copy_at_def)

end
