(* ===== verification/Block_Bitmap.thy ===== *)
theory Block_Bitmap
  imports Prelude
begin

text \<open>
  The allocation bitmap of \<^verbatim>\<open>virtual_volume.rs\<close>: bit \<open>i\<close> is byte \<open>i >> 3\<close>, bit \<open>i & 7\<close>; a set bit is an allocated
  block.  The locale \<open>bitset\<close> is what the allocator needs of it.
\<close>

unbundle bit_operations_syntax

definition byte_idx :: "nat \<Rightarrow> nat" where
  "byte_idx i = drop_bit 3 i"

definition bit_mask :: "nat \<Rightarrow> u8" where
  "bit_mask i = push_bit (i AND 7) 1"

definition bit_free :: "bytes \<Rightarrow> nat \<Rightarrow> bool" where
  "bit_free bm i \<longleftrightarrow> bm ! byte_idx i AND bit_mask i = 0"

definition bit_mark :: "bytes \<Rightarrow> nat \<Rightarrow> bytes" where
  "bit_mark bm i = bm[byte_idx i := bm ! byte_idx i OR bit_mask i]"

definition bit_clear :: "bytes \<Rightarrow> nat \<Rightarrow> bytes" where
  "bit_clear bm i = bm[byte_idx i := bm ! byte_idx i AND NOT (bit_mask i)]"

definition count_free :: "bytes \<Rightarrow> nat \<Rightarrow> u64" where
  "count_free bm n = fold (\<lambda>i acc. if bit_free bm i then acc + 1 else acc) [0..<n] 0"

subsection \<open>What the allocator needs\<close>

locale bitset =
  fixes test :: "'b \<Rightarrow> nat \<Rightarrow> bool" and mark clear :: "'b \<Rightarrow> nat \<Rightarrow> 'b" and invar :: "'b \<Rightarrow> bool" and cap :: nat
  assumes invar_mark: "invar b \<Longrightarrow> i < cap \<Longrightarrow> invar (mark b i)"
    and invar_clear: "invar b \<Longrightarrow> i < cap \<Longrightarrow> invar (clear b i)"
    and test_mark: "invar b \<Longrightarrow> i < cap \<Longrightarrow> j < cap \<Longrightarrow> test (mark b i) j \<longleftrightarrow> j = i \<or> test b j"
    and test_clear: "invar b \<Longrightarrow> i < cap \<Longrightarrow> j < cap \<Longrightarrow> test (clear b i) j \<longleftrightarrow> j \<noteq> i \<and> test b j"
begin

definition unmarked :: "'b \<Rightarrow> nat \<Rightarrow> nat set" where
  "unmarked b n = {i. i < n \<and> \<not> test b i}"

lemma finite_unmarked [simp]: "finite (unmarked b n)"
  by (simp add: unmarked_def)

lemma card_unmarked_le: "card (unmarked b n) \<le> n"
  using card_mono [of "{..<n}" "unmarked b n"] by (auto simp: unmarked_def)

lemma unmarked_mark: "invar b \<Longrightarrow> i < n \<Longrightarrow> n \<le> cap \<Longrightarrow> unmarked (mark b i) n = unmarked b n - {i}"
  by (auto simp: unmarked_def test_mark)

lemma unmarked_clear: "invar b \<Longrightarrow> i < n \<Longrightarrow> n \<le> cap \<Longrightarrow> unmarked (clear b i) n = insert i (unmarked b n)"
  by (auto simp: unmarked_def test_clear)

lemma card_mark:
  "invar b \<Longrightarrow> i < n \<Longrightarrow> n \<le> cap \<Longrightarrow> \<not> test b i \<Longrightarrow> Suc (card (unmarked (mark b i) n)) = card (unmarked b n)"
  using card_Suc_Diff1 [of "unmarked b n" i] by (simp add: unmarked_mark) (simp add: unmarked_def)

lemma card_clear:
  "invar b \<Longrightarrow> i < n \<Longrightarrow> n \<le> cap \<Longrightarrow> test b i \<Longrightarrow> card (unmarked (clear b i) n) = Suc (card (unmarked b n))"
  by (subst unmarked_clear) (auto simp: unmarked_def)

end

subsection \<open>The bytes of the bitmap\<close>

lemma byte_idx_div: "byte_idx i = i div 8"
  by (simp add: byte_idx_def drop_bit_eq_div)

lemma and_7_mod: "(i :: nat) AND 7 = i mod 8"
proof -
  have "(7 :: nat) = mask 3" by (simp add: mask_eq_exp_minus_1)
  then have "i AND 7 = take_bit 3 i" by (simp only: take_bit_eq_mask)
  then show ?thesis by (simp add: take_bit_eq_mod)
qed

lemma bit_bit_mask: "bit (bit_mask i) k \<longleftrightarrow> k = i mod 8"
proof -
  have "i mod 8 < 8" by simp
  then show ?thesis
    by (auto simp: bit_mask_def and_7_mod bit_simps)
qed

lemma u8_zero_bits: "(x :: u8) = 0 \<longleftrightarrow> (\<forall>k. \<not> bit x k)"
  using bit_eqI [of x 0] by auto

lemma and_bit_mask: "x AND bit_mask i = 0 \<longleftrightarrow> \<not> bit x (i mod 8)"
  unfolding u8_zero_bits by (auto simp: bit_and_iff bit_bit_mask)

lemma bit_free_bit: "bit_free bm i \<longleftrightarrow> \<not> bit (bm ! (i div 8)) (i mod 8)"
  by (simp add: bit_free_def byte_idx_div and_bit_mask)

definition bitmap_wf :: "bytes \<Rightarrow> bool" where
  "bitmap_wf bm \<longleftrightarrow> length bm = 32768"

lemma same_bit: "(i :: nat) div 8 = j div 8 \<Longrightarrow> i mod 8 = j mod 8 \<Longrightarrow> i = j"
  by (metis div_mod_decomp)

lemma bit_free_mark:
  "i div 8 < length bm \<Longrightarrow> bit_free (bit_mark bm i) j \<longleftrightarrow> j \<noteq> i \<and> bit_free bm j"
  using same_bit [of i j]
  by (auto simp: bit_free_bit bit_mark_def byte_idx_div nth_list_update bit_or_iff bit_bit_mask)

lemma bit_free_clear:
  "i div 8 < length bm \<Longrightarrow> bit_free (bit_clear bm i) j \<longleftrightarrow> j = i \<or> bit_free bm j"
  using same_bit [of i j]
  by (auto simp: bit_free_bit bit_clear_def byte_idx_div nth_list_update bit_and_iff bit_not_iff bit_bit_mask)

interpretation bm: bitset "\<lambda>b i. \<not> bit_free b i" bit_mark bit_clear bitmap_wf 262144
  by unfold_locales
    (auto simp: bit_free_mark bit_free_clear bitmap_wf_def, auto simp: bit_mark_def bit_clear_def)

lemma unmarked_free: "bm.unmarked b n = {i. i < n \<and> bit_free b i}"
  by (simp add: bm.unmarked_def)

lemma count_free_card: "count_free bm n = of_nat (card (bm.unmarked bm n))"
proof -
  have "fold (\<lambda>i acc. if bit_free bm i then acc + 1 else acc) xs (a :: u64) = a + of_nat (length (filter (bit_free bm) xs))"
    for xs a by (induction xs arbitrary: a) (simp_all add: ac_simps)
  moreover have "card (bm.unmarked bm n) = length (filter (bit_free bm) [0..<n])"
    by (simp add: unmarked_free flip: distinct_card set_filter)
      (rule arg_cong [where f = card], auto)
  ultimately show ?thesis by (simp add: count_free_def)
qed

end
