(* ===== verification/Virtual_Volume.thy ===== *)
theory Virtual_Volume
  imports Os_File Block_Bitmap
begin

text \<open>
  \<^verbatim>\<open>virtual_volume.rs\<close>: the container file, its superblock, the block cipher and the block allocator.  Methods
  that only use the file are \<open>io\<close> actions; the three that also change the bitmap return the volume with
  the result.  The invariants and theorems are in \<^verbatim>\<open>Volume_Alloc\<close> and \<^verbatim>\<open>Volume_Store\<close>.
\<close>

definition BLOCK_SIZE :: nat where "BLOCK_SIZE = 4096"
definition PAYLOAD_SIZE :: nat where "PAYLOAD_SIZE = BLOCK_SIZE - 16 - 12"
definition NONCE_SIZE :: nat where "NONCE_SIZE = 12"
definition SUPERBLOCK_MAGIC :: u32 where "SUPERBLOCK_MAGIC = 0x53454333"
definition VAULT_VERSION :: u32 where "VAULT_VERSION = 3"
definition BITMAP_START_BLOCK :: u64 where "BITMAP_START_BLOCK = 1"
definition BITMAP_BLOCKS :: u64 where "BITMAP_BLOCKS = 8"
definition DATA_START_BLOCK :: u64 where "DATA_START_BLOCK = BITMAP_START_BLOCK + BITMAP_BLOCKS"
definition MAX_DATA_BLOCKS :: u64 where "MAX_DATA_BLOCKS = BITMAP_BLOCKS * of_nat BLOCK_SIZE * 8"

record superblock_info =
  sb_version :: u32
  sb_total_blocks :: u64
  sb_free_blocks :: u64
  sb_master_key_hash :: bytes

definition hash_master_key :: "env \<Rightarrow> bytes \<Rightarrow> bytes" where
  "hash_master_key E key = sha256 E key"

definition derive_block_key :: "env \<Rightarrow> bytes \<Rightarrow> u64 \<Rightarrow> bytes" where
  "derive_block_key E master block_idx =
     take 32 (hmac_sha256 E master (u64_to_le block_idx @ ascii ''blk_key_v1''))"

definition read_superblock :: "bytes \<Rightarrow> superblock_info option" where
  "read_superblock raw =
     (let magic = u32_from_le (subslice 0 4 raw)
      in if magic \<noteq> SUPERBLOCK_MAGIC then None
         else Some \<lparr>sb_version = u32_from_le (subslice 4 8 raw),
                    sb_total_blocks = u64_from_le (subslice 8 16 raw),
                    sb_free_blocks = u64_from_le (subslice 16 24 raw),
                    sb_master_key_hash = copy_at 0 (subslice 24 56 raw) (zeros 32)\<rparr>)"

definition write_superblock :: "bytes \<Rightarrow> superblock_info \<Rightarrow> bytes" where
  "write_superblock raw info =
     (let raw = copy_at 0 (u32_to_le SUPERBLOCK_MAGIC) raw;
          raw = copy_at 4 (u32_to_le (sb_version info)) raw;
          raw = copy_at 8 (u64_to_le (sb_total_blocks info)) raw;
          raw = copy_at 16 (u64_to_le (sb_free_blocks info)) raw;
          raw = copy_at 24 (sb_master_key_hash info) raw
      in copy_at 56 (zeros (length raw - 56)) raw)"

record virtual_volume =
  vv_file :: nat
  vv_master_key :: bytes
  vv_total_blocks :: u64
  vv_free_blocks :: u64
  vv_bitmap :: bytes
  vv_path :: bytes
  vv_bitmap_write_count :: u32

definition vault_path :: "virtual_volume \<Rightarrow> bytes" where
  "vault_path v = vv_path v"

subsection \<open>Construction\<close>

definition create_new :: "env \<Rightarrow> bytes \<Rightarrow> bytes \<Rightarrow> u64 \<Rightarrow> (virtual_volume, 'w) io" where
  "create_new E path master_key total_data_blocks =
     (let total_blocks = DATA_START_BLOCK + total_data_blocks;
          total_size = total_blocks * of_nat BLOCK_SIZE
      in io_bind (open_create_new E path) (\<lambda>file.
         io_bind (set_len E file (unat total_size)) (\<lambda>_.
         let key_hash = hash_master_key E master_key;
             sb = \<lparr>sb_version = VAULT_VERSION, sb_total_blocks = total_blocks,
                   sb_free_blocks = total_data_blocks, sb_master_key_hash = key_hash\<rparr>;
             raw = write_superblock (zeros BLOCK_SIZE) sb
         in io_bind (seek_start E file 0) (\<lambda>_.
            io_bind (write_all E file raw) (\<lambda>_.
            let bitmap = zeros (unat BITMAP_BLOCKS * BLOCK_SIZE)
            in io_bind (seek_start E file (unat (BITMAP_START_BLOCK * of_nat BLOCK_SIZE))) (\<lambda>_.
               io_bind (write_all E file bitmap) (\<lambda>_.
               io_bind (sync_all E file) (\<lambda>_.
               io_return \<lparr>vv_file = file, vv_master_key = master_key, vv_total_blocks = total_blocks,
                 vv_free_blocks = total_data_blocks, vv_bitmap = bitmap, vv_path = path,
                 vv_bitmap_write_count = 0\<rparr>))))))))"

definition open_existing :: "env \<Rightarrow> bytes \<Rightarrow> bytes \<Rightarrow> (virtual_volume, 'w) io" where
  "open_existing E path master_key =
     io_bind (open_rw E path) (\<lambda>file.
     io_bind (seek_start E file 0) (\<lambda>_.
     io_bind (read_exact E file BLOCK_SIZE) (\<lambda>raw.
     case read_superblock raw of
       None \<Rightarrow> io_fail InvalidData
     | Some sb \<Rightarrow>
         let key_hash = hash_master_key E master_key
         in if key_hash \<noteq> sb_master_key_hash sb then io_fail PermissionDenied
            else
              let bitmap_size = unat BITMAP_BLOCKS * BLOCK_SIZE
              in io_bind (seek_start E file (unat (BITMAP_START_BLOCK * of_nat BLOCK_SIZE))) (\<lambda>_.
                 io_bind (read_exact E file bitmap_size) (\<lambda>bitmap.
                 if sb_total_blocks sb < DATA_START_BLOCK \<or> sb_total_blocks sb > DATA_START_BLOCK + MAX_DATA_BLOCKS
                 then io_fail InvalidData
                 else
                   let total_data = unat (sb_total_blocks sb - DATA_START_BLOCK);
                       actual_free = count_free bitmap total_data
                   in io_return \<lparr>vv_file = file, vv_master_key = master_key,
                        vv_total_blocks = sb_total_blocks sb, vv_free_blocks = actual_free,
                        vv_bitmap = bitmap, vv_path = path, vv_bitmap_write_count = 0\<rparr>)))))"

text \<open>The length is queried first; an error counts as empty.  \<^verbatim>\<open>exists\<close> is queried a second time when the
  first answer led to the branch that creates the file.\<close>

definition open_or_create :: "env \<Rightarrow> bytes \<Rightarrow> bytes \<Rightarrow> u64 \<Rightarrow> (virtual_volume, 'w) io" where
  "open_or_create E path master_key total_data_blocks w =
     (if total_data_blocks > MAX_DATA_BLOCKS then (Inl InvalidInput, w)
      else
        let (len, w) = fs_len E path w;
            is_empty = (case len of Inl _ \<Rightarrow> True | Inr n \<Rightarrow> n = 0);
            (there, w) = path_exists E path w
        in if there \<and> \<not> is_empty then open_existing E path master_key w
           else
             let (there, w) = path_exists E path w;
                 w = (if there then snd (remove_file E path w) else w)
             in create_new E path master_key total_data_blocks w)"

subsection \<open>Block I/O\<close>

definition check_data_block :: "virtual_volume \<Rightarrow> u64 \<Rightarrow> (unit, 'w) io" where
  "check_data_block v block_idx =
     (if block_idx < DATA_START_BLOCK \<or> block_idx \<ge> vv_total_blocks v then io_fail InvalidInput else io_return ())"

text \<open>The system time of a file as a \<^verbatim>\<open>timeval\<close>, written back as nanoseconds: before the epoch it is zero, and
  it is cut to microseconds.\<close>

definition filetime_from_systemtime :: "int \<Rightarrow> int" where
  "filetime_from_systemtime st = (if st < 0 then 0 else st div 1000 * 1000)"

definition freeze_timestamps :: "env \<Rightarrow> virtual_volume \<Rightarrow> (unit, 'w) io" where
  "freeze_timestamps E v =
     io_bind (fs_times E (vv_path v)) (\<lambda>(a, m).
     let times = (filetime_from_systemtime a, filetime_from_systemtime m)
     in if 0 \<in> set (vv_path v) then io_fail InvalidInput
        else utimes E (vv_path v) times)"

text \<open>\<open>out\<close> is the array of the caller; the result is what it holds afterwards.  A plaintext of another length
  makes \<^verbatim>\<open>copy_from_slice\<close> panic, which the authenticated length of the stored block excludes.\<close>

definition read_block :: "env \<Rightarrow> virtual_volume \<Rightarrow> u64 \<Rightarrow> (bytes, 'w) io" where
  "read_block E v block_idx =
     io_bind (check_data_block v block_idx) (\<lambda>_.
     let disk_offset = block_idx * of_nat BLOCK_SIZE
     in io_bind (seek_start E (vv_file v) (unat disk_offset)) (\<lambda>_.
        io_bind (read_exact E (vv_file v) BLOCK_SIZE) (\<lambda>raw.
        let stored_nonce = take NONCE_SIZE raw;
            ciphertext = drop NONCE_SIZE raw;
            key = derive_block_key E (vv_master_key v) block_idx
        in case chacha_decrypt E key stored_nonce ciphertext of
             None \<Rightarrow> io_fail InvalidData
           | Some plaintext \<Rightarrow> io_return plaintext)))"

definition write_block :: "env \<Rightarrow> virtual_volume \<Rightarrow> u64 \<Rightarrow> bytes \<Rightarrow> (unit, 'w) io" where
  "write_block E v block_idx plaintext =
     io_bind (check_data_block v block_idx) (\<lambda>_ w.
     let (nonce_bytes, w) = fill_bytes E NONCE_SIZE w;
         key = derive_block_key E (vv_master_key v) block_idx
     in case chacha_encrypt E key nonce_bytes plaintext of
          None \<Rightarrow> (Inl OtherError, w)
        | Some ciphertext \<Rightarrow>
            let disk_offset = block_idx * of_nat BLOCK_SIZE
            in io_bind (seek_start E (vv_file v) (unat disk_offset)) (\<lambda>_.
               io_bind (write_all E (vv_file v) nonce_bytes) (\<lambda>_.
               io_bind (write_all E (vv_file v) ciphertext) (\<lambda>_.
               freeze_timestamps E v))) w)"

definition read_block_raw :: "env \<Rightarrow> virtual_volume \<Rightarrow> u64 \<Rightarrow> (bytes, 'w) io" where
  "read_block_raw E v block_idx =
     io_bind (check_data_block v block_idx) (\<lambda>_.
     let disk_offset = block_idx * of_nat BLOCK_SIZE
     in io_bind (seek_start E (vv_file v) (unat disk_offset)) (\<lambda>_.
        read_exact E (vv_file v) BLOCK_SIZE))"

definition write_block_raw :: "env \<Rightarrow> virtual_volume \<Rightarrow> u64 \<Rightarrow> bytes \<Rightarrow> (unit, 'w) io" where
  "write_block_raw E v block_idx data =
     io_bind (check_data_block v block_idx) (\<lambda>_.
     let disk_offset = block_idx * of_nat BLOCK_SIZE
     in io_bind (seek_start E (vv_file v) (unat disk_offset)) (\<lambda>_.
        write_all E (vv_file v) data))"

subsection \<open>Allocation\<close>

definition write_bitmap :: "env \<Rightarrow> virtual_volume \<Rightarrow> (unit, 'w) io" where
  "write_bitmap E v =
     io_bind (seek_start E (vv_file v) (unat (BITMAP_START_BLOCK * of_nat BLOCK_SIZE))) (\<lambda>_.
     io_bind (write_all E (vv_file v) (vv_bitmap v)) (\<lambda>_.
     io_bind (sync_all E (vv_file v)) (\<lambda>_.
     freeze_timestamps E v)))"

definition allocate_block ::
  "env \<Rightarrow> virtual_volume \<Rightarrow> 'w world_scheme \<Rightarrow> (io_error + u64) \<times> virtual_volume \<times> 'w world_scheme" where
  "allocate_block E v w =
     (if vv_free_blocks v = 0 then (Inl StorageFull, v, w)
      else
        let total_data = unat (vv_total_blocks v - DATA_START_BLOCK)
        in case find (bit_free (vv_bitmap v)) [0..<total_data] of
             None \<Rightarrow> (Inl StorageFull, v, w)
           | Some bit_idx \<Rightarrow>
               let v = v\<lparr>vv_bitmap := bit_mark (vv_bitmap v) bit_idx, vv_free_blocks := vv_free_blocks v - 1\<rparr>;
                   block_idx = DATA_START_BLOCK + of_nat bit_idx
               in case write_bitmap E v w of
                    (Inl e, w) \<Rightarrow> (Inl e, v, w)
                  | (Inr _, w) \<Rightarrow> (Inr block_idx, v, w))"

definition reserve_block ::
  "env \<Rightarrow> virtual_volume \<Rightarrow> u64 \<Rightarrow> 'w world_scheme \<Rightarrow> (io_error + unit) \<times> virtual_volume \<times> 'w world_scheme" where
  "reserve_block E v block_idx w =
     (case check_data_block v block_idx w of
        (Inl e, w) \<Rightarrow> (Inl e, v, w)
      | (Inr _, w) \<Rightarrow>
          let bit_idx = unat (block_idx - DATA_START_BLOCK)
          in if \<not> bit_free (vv_bitmap v) bit_idx then (Inr (), v, w)
             else
               let v = v\<lparr>vv_bitmap := bit_mark (vv_bitmap v) bit_idx, vv_free_blocks := vv_free_blocks v - 1\<rparr>;
                   (r, w) = write_bitmap E v w
               in (r, v, w))"

definition free_block ::
  "env \<Rightarrow> virtual_volume \<Rightarrow> u64 \<Rightarrow> 'w world_scheme \<Rightarrow> (io_error + unit) \<times> virtual_volume \<times> 'w world_scheme" where
  "free_block E v block_idx w =
     (case check_data_block v block_idx w of
        (Inl e, w) \<Rightarrow> (Inl e, v, w)
      | (Inr _, w) \<Rightarrow>
          let bit_idx = unat (block_idx - DATA_START_BLOCK)
          in if bit_free (vv_bitmap v) bit_idx then (Inl InvalidInput, v, w)
             else
               let v = v\<lparr>vv_bitmap := bit_clear (vv_bitmap v) bit_idx, vv_free_blocks := vv_free_blocks v + 1\<rparr>;
                   (r, w) = write_bitmap E v w
               in (r, v, w))"

definition register_touch :: "virtual_volume \<Rightarrow> u64 \<Rightarrow> u32 \<Rightarrow> virtual_volume" where
  "register_touch v block_index byte_offset = v"

definition total_blocks :: "virtual_volume \<Rightarrow> u64" where
  "total_blocks v = vv_total_blocks v"

definition free_blocks :: "virtual_volume \<Rightarrow> u64" where
  "free_blocks v = vv_free_blocks v"

definition data_start_block :: "virtual_volume \<Rightarrow> u64" where
  "data_start_block v = DATA_START_BLOCK"

definition data_blocks :: "virtual_volume \<Rightarrow> u64" where
  "data_blocks v = vv_total_blocks v - DATA_START_BLOCK"

definition master_key_hash :: "env \<Rightarrow> virtual_volume \<Rightarrow> (bytes, 'w) io" where
  "master_key_hash E v =
     io_bind (seek_start E (vv_file v) 0) (\<lambda>_.
     io_bind (read_exact E (vv_file v) BLOCK_SIZE) (\<lambda>raw.
     case read_superblock raw of
       None \<Rightarrow> io_fail InvalidData
     | Some sb \<Rightarrow> io_return (sb_master_key_hash sb)))"

text \<open>\<^verbatim>\<open>Drop\<close>: the result of the flush is ignored and the key is overwritten.\<close>

definition volume_drop :: "env \<Rightarrow> virtual_volume \<Rightarrow> 'w world_scheme \<Rightarrow> virtual_volume \<times> 'w world_scheme" where
  "volume_drop E v w =
     (let w = snd (sync_all E (vv_file v) w)
      in (v\<lparr>vv_master_key := zeros (length (vv_master_key v))\<rparr>, w))"

end
