(* ===== verification/Volume_Alloc.thy ===== *)
theory Volume_Alloc
  imports Virtual_Volume
begin

text \<open>
  The block allocator of \<^verbatim>\<open>virtual_volume.rs\<close>: the invariant that ties the free counter to the bitmap, kept by every
  operation whatever the operating system does, and the contract \<open>block_allocator\<close> that excludes handing
  out a block twice.
\<close>

lemma layout_values [simp]: "DATA_START_BLOCK = 9" "MAX_DATA_BLOCKS = 262144"
  by (simp_all add: DATA_START_BLOCK_def MAX_DATA_BLOCKS_def BITMAP_START_BLOCK_def BITMAP_BLOCKS_def BLOCK_SIZE_def)

definition data_n :: "virtual_volume \<Rightarrow> nat" where
  "data_n v = unat (vv_total_blocks v - DATA_START_BLOCK)"

definition vol_wf :: "virtual_volume \<Rightarrow> bool" where
  "vol_wf v \<longleftrightarrow> bitmap_wf (vv_bitmap v) \<and>
     DATA_START_BLOCK \<le> vv_total_blocks v \<and> vv_total_blocks v \<le> DATA_START_BLOCK + MAX_DATA_BLOCKS \<and>
     vv_free_blocks v = of_nat (card (bm.unmarked (vv_bitmap v) (data_n v)))"

text \<open>The free data blocks, by absolute index.\<close>

definition vol_free :: "virtual_volume \<Rightarrow> u64 set" where
  "vol_free v = {b. DATA_START_BLOCK \<le> b \<and> b < vv_total_blocks v \<and> bit_free (vv_bitmap v) (unat (b - DATA_START_BLOCK))}"

lemma data_n_le: "vol_wf v \<Longrightarrow> data_n v \<le> 262144"
  by (auto simp: vol_wf_def data_n_def word_le_nat_alt unat_sub)

lemma unat_total: "vol_wf v \<Longrightarrow> unat (vv_total_blocks v) = 9 + data_n v"
  by (auto simp: vol_wf_def data_n_def word_le_nat_alt unat_sub)

lemma block_in_range:
  assumes "vol_wf v"
  shows "9 \<le> b \<and> b < vv_total_blocks v \<longleftrightarrow> (\<exists>i < data_n v. b = 9 + of_nat i)"
proof
  assume r: "9 \<le> b \<and> b < vv_total_blocks v"
  then have "unat (b - 9) = unat b - 9" by (simp add: unat_sub word_le_nat_alt)
  with r unat_total [OF assms] have "unat (b - 9) < data_n v" by (auto simp: word_le_nat_alt word_less_nat_alt)
  moreover have "b = 9 + of_nat (unat (b - 9))" by simp
  ultimately show "\<exists>i < data_n v. b = 9 + of_nat i" by blast
next
  assume "\<exists>i < data_n v. b = 9 + of_nat i"
  then obtain i where i: "i < data_n v" "b = 9 + of_nat i" by blast
  with data_n_le [OF assms] have "unat b = 9 + i" by (simp add: unat_word_ariths unat_of_nat)
  with i unat_total [OF assms] show "9 \<le> b \<and> b < vv_total_blocks v"
    by (simp add: word_le_nat_alt word_less_nat_alt)
qed

lemma block_index: "vol_wf v \<Longrightarrow> i < data_n v \<Longrightarrow> unat (of_nat i :: u64) = i"
  using data_n_le [of v] by (simp add: unat_of_nat)

lemma vol_free_image:
  assumes "vol_wf v"
  shows "vol_free v = (\<lambda>i. 9 + of_nat i) ` bm.unmarked (vv_bitmap v) (data_n v)"
proof -
  have "b \<in> vol_free v \<longleftrightarrow> (\<exists>i < data_n v. b = 9 + of_nat i \<and> bit_free (vv_bitmap v) i)" for b
    using block_in_range [OF assms, of b] block_index [OF assms] by (auto simp: vol_free_def)
  then show ?thesis by (auto simp: unmarked_free)
qed

lemma data_n_update [simp]: "data_n (v\<lparr>vv_bitmap := b, vv_free_blocks := f\<rparr>) = data_n v"
  by (simp add: data_n_def)

lemma block_inject: "vol_wf v \<Longrightarrow> inj_on (\<lambda>i. 9 + of_nat i :: u64) {..<data_n v}"
  by (rule inj_onI) (metis add_left_cancel block_index lessThan_iff)

definition marked :: "nat \<Rightarrow> virtual_volume \<Rightarrow> virtual_volume" where
  "marked i v = v\<lparr>vv_bitmap := bit_mark (vv_bitmap v) i, vv_free_blocks := vv_free_blocks v - 1\<rparr>"

definition cleared :: "nat \<Rightarrow> virtual_volume \<Rightarrow> virtual_volume" where
  "cleared i v = v\<lparr>vv_bitmap := bit_clear (vv_bitmap v) i, vv_free_blocks := vv_free_blocks v + 1\<rparr>"

lemma marked_wf:
  assumes "vol_wf v" and "i < data_n v" and "bit_free (vv_bitmap v) i"
  shows "vol_wf (marked i v) \<and> vol_free (marked i v) = vol_free v - {9 + of_nat i}"
proof
  have b: "bitmap_wf (vv_bitmap v)" and n: "data_n v \<le> 262144"
    using assms(1) by (simp_all add: vol_wf_def data_n_le)
  let ?U = "bm.unmarked (vv_bitmap v) (data_n v)" and ?U' = "bm.unmarked (bit_mark (vv_bitmap v) i) (data_n v)"
  have "Suc (card ?U') = card ?U"
    using bm.card_mark [OF b assms(2) n] assms(3) by simp
  then have "of_nat (card ?U) - 1 = (of_nat (card ?U') :: u64)"
    by (simp flip: \<open>Suc (card ?U') = card ?U\<close>)
  moreover have "bitmap_wf (bit_mark (vv_bitmap v) i)"
    using b by (simp add: bitmap_wf_def bit_mark_def)
  ultimately show wf: "vol_wf (marked i v)"
    using assms(1) by (simp add: vol_wf_def marked_def)
  have "inj_on (\<lambda>i. 9 + of_nat i :: u64) (insert i ?U)"
    by (rule inj_on_subset [OF block_inject [OF assms(1)]]) (use assms(2) in \<open>auto simp: unmarked_free\<close>)
  then show "vol_free (marked i v) = vol_free v - {9 + of_nat i}"
    unfolding vol_free_image [OF assms(1)] vol_free_image [OF wf]
    using bm.unmarked_mark [OF b assms(2) n] by (auto simp: marked_def inj_on_def)
qed

lemma cleared_wf:
  assumes "vol_wf v" and "i < data_n v" and "\<not> bit_free (vv_bitmap v) i"
  shows "vol_wf (cleared i v) \<and> vol_free (cleared i v) = insert (9 + of_nat i) (vol_free v)"
proof
  have b: "bitmap_wf (vv_bitmap v)" and n: "data_n v \<le> 262144"
    using assms(1) by (simp_all add: vol_wf_def data_n_le)
  have "bitmap_wf (bit_clear (vv_bitmap v) i)"
    using b by (simp add: bitmap_wf_def bit_clear_def)
  then show wf: "vol_wf (cleared i v)"
    using assms(1) bm.card_clear [OF b assms(2) n assms(3)] by (simp add: vol_wf_def cleared_def)
  show "vol_free (cleared i v) = insert (9 + of_nat i) (vol_free v)"
    unfolding vol_free_image [OF assms(1)] vol_free_image [OF wf]
    using bm.unmarked_clear [OF b assms(2) n] by (auto simp: cleared_def)
qed

subsection \<open>The three operations\<close>

lemma find_first: "find P [0..<n] = Some i \<longleftrightarrow> i < n \<and> P i \<and> (\<forall>j<i. \<not> P j)"
  by (auto simp: find_Some_iff)

lemma free_blocks_card: "vol_wf v \<Longrightarrow> vv_free_blocks v = of_nat (card (vol_free v))"
proof -
  assume wf: "vol_wf v"
  have "inj_on (\<lambda>i. 9 + of_nat i :: u64) (bm.unmarked (vv_bitmap v) (data_n v))"
    by (rule inj_on_subset [OF block_inject [OF wf]]) (auto simp: unmarked_free)
  then have "card (vol_free v) = card (bm.unmarked (vv_bitmap v) (data_n v))" by (simp add: vol_free_image [OF wf] card_image)
  with wf show ?thesis by (simp add: vol_wf_def)
qed

lemma vol_free_empty: "vol_wf v \<Longrightarrow> vol_free v = {} \<longleftrightarrow> vv_free_blocks v = 0"
proof -
  assume wf: "vol_wf v"
  let ?U = "bm.unmarked (vv_bitmap v) (data_n v)"
  have "card ?U \<le> 262144" using bm.card_unmarked_le data_n_le [OF wf] by (rule order_trans)
  then have "unat (of_nat (card ?U) :: u64) = card ?U" by (simp add: unat_of_nat)
  then have "(of_nat (card ?U) :: u64) = 0 \<longleftrightarrow> card ?U = 0" by (metis unat_eq_zero)
  with wf show ?thesis by (simp add: vol_free_image) (simp add: vol_wf_def)
qed

text \<open>The lowest free block, and what follows from it being found.\<close>

lemma allocate_block_cases:
  assumes "vol_wf v"
  obtains (full) "vol_free v = {}" "allocate_block E v w = (Inl StorageFull, v, w)"
  | (found) i where "i < data_n v" "bit_free (vv_bitmap v) i" "\<forall>j<i. \<not> bit_free (vv_bitmap v) j"
      "allocate_block E v w =
         (case write_bitmap E (marked i v) w of
            (Inl e, w') \<Rightarrow> (Inl e, marked i v, w') | (Inr _, w') \<Rightarrow> (Inr (9 + of_nat i), marked i v, w'))"
proof (cases "vol_free v = {}")
  case True
  with assms full show ?thesis by (simp add: allocate_block_def vol_free_empty)
next
  case False
  then obtain k where "k < data_n v" "bit_free (vv_bitmap v) k"
    using assms by (auto simp: vol_free_image unmarked_free)
  then have "find (bit_free (vv_bitmap v)) [0..<data_n v] \<noteq> None" by (auto simp: find_None_iff)
  then obtain i where i: "find (bit_free (vv_bitmap v)) [0..<data_n v] = Some i" by blast
  have "vv_free_blocks v \<noteq> 0" using False assms by (simp add: vol_free_empty)
  with i have "allocate_block E v w =
      (case write_bitmap E (marked i v) w of
         (Inl e, w') \<Rightarrow> (Inl e, marked i v, w') | (Inr _, w') \<Rightarrow> (Inr (9 + of_nat i), marked i v, w'))"
    unfolding marked_def by (simp add: allocate_block_def data_n_def Let_def)
  moreover from i have "i < data_n v" "bit_free (vv_bitmap v) i" "\<forall>j<i. \<not> bit_free (vv_bitmap v) j"
    by (simp_all add: find_first)
  ultimately show ?thesis by (intro found)
qed

lemma check_data_block_ok:
  assumes "vol_wf v"
  obtains (bad) "check_data_block v b w = (Inl InvalidInput, w)" "\<not> (9 \<le> b \<and> b < vv_total_blocks v)"
  | (good) i where "check_data_block v b w = (Inr (), w)" "b = 9 + of_nat i" "i < data_n v" "unat (b - 9) = i"
proof (cases "9 \<le> b \<and> b < vv_total_blocks v")
  case True
  then obtain i where i: "i < data_n v" "b = 9 + of_nat i" using block_in_range [OF assms] by blast
  moreover from i have "unat (b - 9) = i" using block_index [OF assms] by simp
  moreover from True have "\<not> b < 9" "\<not> vv_total_blocks v \<le> b" by (simp_all add: not_less not_le)
  then have "check_data_block v b w = (Inr (), w)" by (simp add: check_data_block_def io_return_def)
  ultimately show ?thesis by (intro good)
next
  case False
  then have "check_data_block v b w = (Inl InvalidInput, w)"
    by (auto simp: check_data_block_def io_fail_def not_less not_le)
  with False show ?thesis by (intro bad)
qed

lemma reserve_block_cases:
  assumes "vol_wf v"
  obtains (same) r where "reserve_block E v b w = (r, v, w)"
      "r = Inr () \<and> b \<notin> vol_free v \<or> r = Inl InvalidInput \<and> \<not> (9 \<le> b \<and> b < vv_total_blocks v)"
  | (marks) i r w' where "b = 9 + of_nat i" "i < data_n v" "bit_free (vv_bitmap v) i"
      "write_bitmap E (marked i v) w = (r, w')" "reserve_block E v b w = (r, marked i v, w')"
proof (cases rule: check_data_block_ok [OF assms, of b w, case_names bad good])
  case bad
  with same show ?thesis by (simp add: reserve_block_def)
next
  case (good i)
  show ?thesis
  proof (cases "bit_free (vv_bitmap v) i")
    case False
    with good same show ?thesis by (simp add: reserve_block_def vol_free_def)
  next
    case True
    with good show ?thesis
      by (intro marks [of i "fst (write_bitmap E (marked i v) w)" "snd (write_bitmap E (marked i v) w)"])
        (simp_all add: reserve_block_def Let_def marked_def split: prod.split)
  qed
qed

lemma free_block_cases:
  assumes "vol_wf v"
  obtains (same) "free_block E v b w = (Inl InvalidInput, v, w)"
      "b \<in> vol_free v \<or> \<not> (9 \<le> b \<and> b < vv_total_blocks v)"
  | (clears) i r w' where "b = 9 + of_nat i" "i < data_n v" "\<not> bit_free (vv_bitmap v) i"
      "write_bitmap E (cleared i v) w = (r, w')" "free_block E v b w = (r, cleared i v, w')"
proof (cases rule: check_data_block_ok [OF assms, of b w, case_names bad good])
  case bad
  then have "free_block E v b w = (Inl InvalidInput, v, w)" by (simp add: free_block_def)
  with bad same show ?thesis by blast
next
  case (good i)
  show ?thesis
  proof (cases "bit_free (vv_bitmap v) i")
    case True
    with good have "free_block E v b w = (Inl InvalidInput, v, w)" by (simp add: free_block_def)
    moreover have "b \<in> vol_free v"
      using True good block_in_range [OF assms, of b] by (auto simp: vol_free_def)
    ultimately show ?thesis using same by blast
  next
    case False
    with good show ?thesis
      by (intro clears [of i "fst (write_bitmap E (cleared i v) w)" "snd (write_bitmap E (cleared i v) w)"])
        (simp_all add: free_block_def Let_def cleared_def split: prod.split)
  qed
qed

text \<open>C26: The allocator's invariant (the free counter equals the number of clear bits, the bitmap has
  its full size and the block count is in range) is kept by allocating, reserving and freeing, for every
  block index and whichever operating-system calls fail.\<close>

theorem allocator_keeps_invariant:
  assumes "vol_wf v"
  shows "vol_wf (fst (snd (allocate_block E v w))) \<and> vol_wf (fst (snd (reserve_block E v b w))) \<and>
    vol_wf (fst (snd (free_block E v b w)))"
proof (intro conjI)
  show "vol_wf (fst (snd (allocate_block E v w)))"
    using assms by (cases rule: allocate_block_cases [OF assms, of E w])
      (auto simp: marked_wf split: prod.split sum.split)
  show "vol_wf (fst (snd (reserve_block E v b w)))"
    using assms by (cases rule: reserve_block_cases [OF assms, of E b w]) (auto simp: marked_wf)
  show "vol_wf (fst (snd (free_block E v b w)))"
    using assms by (cases rule: free_block_cases [OF assms, of E b w]) (auto simp: cleared_wf)
qed

definition demo_volume :: virtual_volume where
  "demo_volume = \<lparr>vv_file = 0, vv_master_key = zeros 32, vv_total_blocks = 13, vv_free_blocks = 4,
     vv_bitmap = zeros 32768, vv_path = [], vv_bitmap_write_count = 0\<rparr>"

lemma unmarked_zeros: "n \<le> 262144 \<Longrightarrow> bm.unmarked (zeros 32768) n = {..<n}"
  unfolding unmarked_free by (auto simp: bit_free_bit)

lemma demo_volume_wf: "vol_wf demo_volume"
  by (simp add: vol_wf_def demo_volume_def data_n_def unmarked_zeros bitmap_wf_def)

theorem allocator_keeps_invariant_witness:
  "vol_wf (fst (snd (free_block demo_env demo_volume 10 demo_world)))"
  using allocator_keeps_invariant [OF demo_volume_wf] by blast

subsection \<open>Lowest free block\<close>

lemma block_mono: "vol_wf v \<Longrightarrow> i \<le> j \<Longrightarrow> j < data_n v \<Longrightarrow> (9 + of_nat i :: u64) \<le> 9 + of_nat j"
  using data_n_le [of v] by (simp add: word_le_nat_alt unat_word_ariths unat_of_nat)

text \<open>Allocation takes the lowest free data block.  When none is free it reports a full store and
  changes nothing; otherwise exactly that block leaves the free set, also when writing the bitmap fails:
  the caller then gets the error and no block, and the block stays allocated.\<close>

lemma allocate_block_spec:
  assumes "vol_wf v"
  shows "if vol_free v = {} then allocate_block E v w = (Inl StorageFull, v, w)
    else \<exists>b v' r w'. allocate_block E v w = (r, v', w') \<and> b \<in> vol_free v \<and> (\<forall>c. c \<in> vol_free v \<longrightarrow> b \<le> c) \<and>
           vol_free v' = vol_free v - {b} \<and> (r = Inr b \<or> (\<exists>e. r = Inl e))"
proof (cases rule: allocate_block_cases [OF assms, of E w, case_names full found])
  case full
  then show ?thesis by simp
next
  case (found i)
  let ?b = "9 + of_nat i :: u64"
  have b: "?b \<in> vol_free v"
    using found(1,2) by (auto simp: vol_free_image [OF assms] unmarked_free)
  moreover have "?b \<le> c" if "c \<in> vol_free v" for c
  proof -
    from that obtain j where "j < data_n v" "bit_free (vv_bitmap v) j" "c = 9 + of_nat j"
      by (auto simp: vol_free_image [OF assms] unmarked_free)
    with found(3) show ?thesis by (metis block_mono [OF assms] not_le)
  qed
  moreover have "vol_free (marked i v) = vol_free v - {?b}"
    using marked_wf [OF assms found(1,2)] by blast
  ultimately show ?thesis
    using found(4) by (auto split: prod.splits sum.splits)
qed

subsection \<open>No block is handed out twice\<close>

text \<open>
  What a client needs of an allocator: a successful allocation removes the returned block from the free
  set, and a release may only return the named block to it.  Failing calls may lose blocks.
\<close>

locale block_allocator =
  fixes alloc :: "'s \<Rightarrow> ('e + 'b) \<times> 's" and release :: "'b \<Rightarrow> 's \<Rightarrow> ('e + unit) \<times> 's"
    and free_set :: "'s \<Rightarrow> 'b set" and invar :: "'s \<Rightarrow> bool"
  assumes alloc_invar: "invar s \<Longrightarrow> invar (snd (alloc s))"
    and release_invar: "invar s \<Longrightarrow> invar (snd (release b s))"
    and alloc_ok: "invar s \<Longrightarrow> alloc s = (Inr b, s') \<Longrightarrow> b \<in> free_set s \<and> free_set s' = free_set s - {b}"
    and alloc_err: "invar s \<Longrightarrow> alloc s = (Inl e, s') \<Longrightarrow> free_set s' \<subseteq> free_set s"
    and release_frame: "invar s \<Longrightarrow> free_set (snd (release b s)) \<subseteq> insert b (free_set s)"
begin

definition exclusive :: "'b list \<Rightarrow> 's \<Rightarrow> bool" where
  "exclusive held s \<longleftrightarrow> invar s \<and> distinct held \<and> set held \<inter> free_set s = {}"

lemma exclusive_alloc: "exclusive held s \<Longrightarrow> alloc s = (Inr b, s') \<Longrightarrow> exclusive (b # held) s'"
  using alloc_ok [of s b s'] alloc_invar [of s] by (auto simp: exclusive_def)

lemma exclusive_alloc_err: "exclusive held s \<Longrightarrow> alloc s = (Inl e, s') \<Longrightarrow> exclusive held s'"
  using alloc_err [of s e s'] alloc_invar [of s] by (auto simp: exclusive_def)

lemma exclusive_release: "exclusive held s \<Longrightarrow> exclusive (remove1 b held) (snd (release b s))"
  using release_frame [of s b] release_invar [of s b] by (auto simp: exclusive_def)

end

interpretation vault: block_allocator
  "\<lambda>(v, w). allocate_block E v w" "\<lambda>b (v, w). free_block E v b w" "\<lambda>(v, w). vol_free v" "\<lambda>(v, w). vol_wf v" for E
proof unfold_locales
  fix s :: "virtual_volume \<times> 'a world_scheme" and b s' e
  obtain v w where s: "s = (v, w)" by force
  assume "case s of (v, w) \<Rightarrow> vol_wf v"
  with s have wf: "vol_wf v" by simp
  show "case snd (case s of (v, w) \<Rightarrow> allocate_block E v w) of (v, w) \<Rightarrow> vol_wf v"
    unfolding s using wf by (cases rule: allocate_block_cases [OF wf, of E w])
      (auto simp: marked_wf split: prod.split sum.split)
  show "case snd (case s of (v, w) \<Rightarrow> free_block E v b w) of (v, w) \<Rightarrow> vol_wf v"
    unfolding s using wf by (cases rule: free_block_cases [OF wf, of E b w]) (auto simp: cleared_wf)
  show "(case snd (case s of (v, w) \<Rightarrow> free_block E v b w) of (v, w) \<Rightarrow> vol_free v) \<subseteq>
      insert b (case s of (v, w) \<Rightarrow> vol_free v)"
    unfolding s using wf by (cases rule: free_block_cases [OF wf, of E b w]) (auto simp: cleared_wf)
next
  fix s :: "virtual_volume \<times> 'a world_scheme" and b s'
  obtain v w where s: "s = (v, w)" by force
  assume "case s of (v, w) \<Rightarrow> vol_wf v" and a: "(case s of (v, w) \<Rightarrow> allocate_block E v w) = (Inr b, s')"
  with s have wf: "vol_wf v" by simp
  show "b \<in> (case s of (v, w) \<Rightarrow> vol_free v) \<and>
      (case s' of (v, w) \<Rightarrow> vol_free v) = (case s of (v, w) \<Rightarrow> vol_free v) - {b}"
    using a unfolding s by (cases rule: allocate_block_cases [OF wf, of E w])
      (auto simp: marked_wf [OF wf] vol_free_image [OF wf] unmarked_free split: prod.splits sum.splits)
next
  fix s :: "virtual_volume \<times> 'a world_scheme" and e s'
  obtain v w where s: "s = (v, w)" by force
  assume "case s of (v, w) \<Rightarrow> vol_wf v" and a: "(case s of (v, w) \<Rightarrow> allocate_block E v w) = (Inl e, s')"
  with s have wf: "vol_wf v" by simp
  show "(case s' of (v, w) \<Rightarrow> vol_free v) \<subseteq> (case s of (v, w) \<Rightarrow> vol_free v)"
    using a unfolding s by (cases rule: allocate_block_cases [OF wf, of E w])
      (auto simp: marked_wf [OF wf] split: prod.splits sum.splits)
qed

text \<open>A client that allocates and frees in any order and keeps the blocks it was given.  A block counts as given
  back once \<^verbatim>\<open>free_block\<close> has been called on it, whatever that call returned.\<close>

datatype request = Allocate | Release u64

fun serve :: "env \<Rightarrow> request \<Rightarrow> (virtual_volume \<times> 'w world_scheme) \<times> u64 list \<Rightarrow>
    (virtual_volume \<times> 'w world_scheme) \<times> u64 list" where
  "serve E Allocate ((v, w), held) =
     (case allocate_block E v w of (Inr b, s) \<Rightarrow> (s, b # held) | (Inl _, s) \<Rightarrow> (s, held))"
| "serve E (Release b) ((v, w), held) = (snd (free_block E v b w), remove1 b held)"

lemma serve_exclusive:
  "vault.exclusive held s \<Longrightarrow> vault.exclusive (snd (serve E r (s, held))) (fst (serve E r (s, held)))"
  using vault.exclusive_alloc [of held s E] vault.exclusive_alloc_err [of held s E]
    vault.exclusive_release [of held s _ E]
  by (cases s; cases r) (auto split: prod.split sum.split)

text \<open>Whatever a client requests and whichever operating-system calls fail, the blocks it holds are pairwise
  distinct and none of them is in the free set: no block is handed out while it is held.\<close>

lemma no_double_allocation:
  assumes "vol_wf v" and "fold (serve E) reqs ((v, w), []) = ((v', w'), held)"
  shows "distinct held \<and> set held \<inter> vol_free v' = {} \<and> vol_wf v'"
proof -
  have "vault.exclusive (snd x) (fst x) \<Longrightarrow>
      vault.exclusive (snd (fold (serve E) reqs x)) (fst (fold (serve E) reqs x))" for x
  proof (induction reqs arbitrary: x)
    case (Cons r reqs)
    then show ?case using serve_exclusive [of "snd x" "fst x" E r] by simp
  qed simp
  from this [of "((v, w), [])"] assms show ?thesis by (simp add: vault.exclusive_def)
qed

end
