(* ===== verification/Volume_Store.thy ===== *)
theory Volume_Store
  imports Volume_Alloc
begin

text \<open>
  The contents of the container under a reliable operating system: superblock and bitmap on disk, encrypted
  blocks, creation and reopening.  \<open>file_of fd w\<close> is the content of the file behind a descriptor.
\<close>

definition file_of :: "nat \<Rightarrow> 'w world_scheme \<Rightarrow> bytes" where
  "file_of fd w = content (inodes w (fd_ino (fds w fd)))"

definition durable_of :: "nat \<Rightarrow> 'w world_scheme \<Rightarrow> bytes" where
  "durable_of fd w = durable (inodes w (fd_ino (fds w fd)))"

text \<open>The descriptor and the path lead to the same file.\<close>

definition linked :: "bytes \<Rightarrow> nat \<Rightarrow> 'w world_scheme \<Rightarrow> bool" where
  "linked path fd w \<longleftrightarrow> 0 \<notin> set path \<and> paths w path = Some (fd_ino (fds w fd))"

subsection \<open>Frame of the file calls\<close>

lemma tick_frame [frame_simps]:
  "file_of fd (os_tick w) = file_of fd w" "durable_of fd (os_tick w) = durable_of fd w"
  "linked p fd (os_tick w) = linked p fd w" "fds (os_tick w) = fds w"
  by (simp_all add: os_tick_def file_of_def durable_of_def linked_def)

lemma set_pos_frame [frame_simps]:
  "file_of fd (set_pos fd' p w) = file_of fd w" "durable_of fd (set_pos fd' p w) = durable_of fd w"
  "linked q fd (set_pos fd' p w) = linked q fd w" "fd_pos (fds (set_pos fd p w) fd) = p"
  by (auto simp: set_pos_def file_of_def durable_of_def linked_def)

lemma put_bytes_frame [frame_simps]:
  "file_of fd (put_bytes E fd bs w) = (if bs = [] then file_of fd w else store_at (fd_pos (fds w fd)) bs (file_of fd w))"
  "durable_of fd (put_bytes E fd bs w) = durable_of fd w"
  "linked q fd (put_bytes E fd bs w) = linked q fd w"
  "fd_pos (fds (put_bytes E fd bs w) fd) = fd_pos (fds w fd) + length bs"
  by (auto simp: put_bytes_def Let_def set_pos_def upd_inode_def file_of_def durable_of_def linked_def)

lemma fill_bytes_frame [frame_simps]:
  "file_of fd (snd (fill_bytes E n w)) = file_of fd w" "durable_of fd (snd (fill_bytes E n w)) = durable_of fd w"
  "linked q fd (snd (fill_bytes E n w)) = linked q fd w"
  by (simp_all add: fill_bytes_def file_of_def durable_of_def linked_def)

lemma seek_ok: "os_reliable E \<Longrightarrow> seek_start E fd off w = (Inr (), set_pos fd off (os_tick w))"
  by (simp add: seek_start_def os_call_reliable)

lemma write_ok: "os_reliable E \<Longrightarrow> write_all E fd bs w = (Inr (), put_bytes E fd bs (os_tick w))"
  by (simp add: write_all_def os_reliable_def)

lemma sync_ok:
  assumes "os_reliable E"
  obtains w' where "sync_all E fd w = (Inr (), w')" "file_of fd w' = file_of fd w" "durable_of fd w' = file_of fd w"
    "\<And>q. linked q fd w' = linked q fd w" "rng_draws w' = rng_draws w"
  using assms by (auto simp: sync_all_def os_call_reliable upd_inode_def os_tick_def file_of_def durable_of_def linked_def)

lemma read_ok:
  fixes w :: "'a world_scheme"
  assumes "os_reliable E" and "off + n \<le> length (file_of fd w)"
  obtains w' where "\<And>f. io_bind (seek_start E fd off) (\<lambda>_. io_bind (read_exact E fd n) f) w =
      f (subslice off (off + n) (file_of fd w)) w'"
    "file_of fd w' = file_of fd w" "durable_of fd w' = durable_of fd w" "\<And>q. linked q fd w' = linked q fd w"
proof -
  let ?w = "set_pos fd off (os_tick w)"
  let ?w' = "upd_inode (fd_ino (fds ?w fd)) (\<lambda>d. d\<lparr>atime := os_now E (os_tick ?w)\<rparr>) (set_pos fd (off + n) (os_tick ?w))"
  have "read_exact E fd n ?w = (Inr (subslice off (off + n) (file_of fd w)), ?w')"
    using assms by (simp add: read_exact_def os_call_reliable Let_def frame_simps set_pos_def os_tick_def file_of_def)
  then have "io_bind (seek_start E fd off) (\<lambda>_. io_bind (read_exact E fd n) f) w =
      f (subslice off (off + n) (file_of fd w)) ?w'" for f :: "bytes \<Rightarrow> ('b, 'a) io"
    by (simp add: io_bind_def seek_ok [OF assms(1)])
  then show ?thesis
    by (intro that [of ?w']) (auto simp: upd_inode_def set_pos_def os_tick_def file_of_def durable_of_def linked_def)
qed

lemma freeze_ok:
  assumes "os_reliable E" and "linked (vv_path v) (vv_file v) w"
  obtains w' where "freeze_timestamps E v w = (Inr (), w')" "file_of (vv_file v) w' = file_of (vv_file v) w"
    "durable_of (vv_file v) w' = durable_of (vv_file v) w" "\<And>q. linked q (vv_file v) w' = linked q (vv_file v) w"
  using assms
  by (intro that [of "snd (freeze_timestamps E v w)"])
    (auto simp: freeze_timestamps_def fs_times_def utimes_def io_bind_def os_call_reliable lookup_path_def linked_def
      os_tick_def upd_inode_def file_of_def durable_of_def Let_def split: prod.split)

subsection \<open>Crate globals are untouched\<close>

text \<open>File calls change only the \<open>world\<close> part of the process state.\<close>

definition keeps_globals :: "('a, 'w) io \<Rightarrow> bool" where
  "keeps_globals m \<longleftrightarrow> (\<forall>w. world.more (snd (m w)) = world.more w)"

named_theorems keeps_intros

lemma keeps_basic [keeps_intros]: "keeps_globals (io_return x)" "keeps_globals (io_fail e)" "keeps_globals (lookup_path p)"
  by (simp_all add: keeps_globals_def io_return_def io_fail_def lookup_path_def split: option.split)

lemma keeps_bind [keeps_intros]: "keeps_globals m \<Longrightarrow> (\<And>x. keeps_globals (f x)) \<Longrightarrow> keeps_globals (io_bind m f)"
  by (auto simp: keeps_globals_def io_bind_def split: prod.split sum.split) (metis snd_conv)+

lemma keeps_call [keeps_intros]: "keeps_globals f \<Longrightarrow> keeps_globals (os_call E f)"
  by (auto simp: keeps_globals_def os_call_def os_tick_def split: option.split)

lemma keeps_files [keeps_intros]:
  "keeps_globals (seek_start E fd off)" "keeps_globals (write_all E fd bs)" "keeps_globals (sync_all E fd)"
  "keeps_globals (read_exact E fd n)" "keeps_globals (set_len E fd n)" "keeps_globals (utimes E p ts)"
  "keeps_globals (fs_times E p)"
  unfolding seek_start_def sync_all_def read_exact_def set_len_def utimes_def fs_times_def
  by (auto simp: keeps_globals_def os_call_def io_bind_def lookup_path_def write_all_def put_bytes_def set_pos_def
      upd_inode_def os_tick_def Let_def split: option.splits prod.splits sum.splits if_splits)

lemma keeps_check [keeps_intros]: "keeps_globals (check_data_block v b)"
  by (simp add: check_data_block_def keeps_intros)

lemma keeps_freeze [keeps_intros]: "keeps_globals (freeze_timestamps E v)"
  unfolding freeze_timestamps_def by (intro keeps_intros) (auto simp: Let_def intro: keeps_intros split: prod.split)

lemma keeps_blocks [keeps_intros]: "keeps_globals (read_block E v b)" "keeps_globals (write_bitmap E v)"
  unfolding read_block_def write_bitmap_def Let_def
  by (intro keeps_intros; auto intro: keeps_intros split: option.split)+

lemma keeps_encrypt:
  "(\<And>nonce ct. keeps_globals (f nonce ct)) \<Longrightarrow>
   keeps_globals (\<lambda>w. case fill_bytes E n w of (nonce, w) \<Rightarrow>
     (case chacha_encrypt E k nonce pt of None \<Rightarrow> (Inl OtherError, w) | Some ct \<Rightarrow> f nonce ct w))"
  by (auto simp: keeps_globals_def fill_bytes_def split: option.split)

lemma keeps_write_block [keeps_intros]: "keeps_globals (write_block E v b pt)"
  unfolding write_block_def Let_def by (intro keeps_encrypt keeps_intros)

subsection \<open>Encrypted blocks\<close>

text \<open>An open volume: the allocator's invariant, a live link to a file of the full size.\<close>

definition vol_open :: "virtual_volume \<Rightarrow> 'w world_scheme \<Rightarrow> bool" where
  "vol_open v w \<longleftrightarrow> vol_wf v \<and> linked (vv_path v) (vv_file v) w \<and>
     length (file_of (vv_file v) w) = unat (vv_total_blocks v) * BLOCK_SIZE"

definition stored_block :: "virtual_volume \<Rightarrow> u64 \<Rightarrow> 'w world_scheme \<Rightarrow> bytes" where
  "stored_block v b w = subslice (unat b * BLOCK_SIZE) (unat b * BLOCK_SIZE + BLOCK_SIZE) (file_of (vv_file v) w)"

text \<open>What a stored block, nonce first, decrypts to.\<close>

definition plaintext_of :: "env \<Rightarrow> bytes \<Rightarrow> u64 \<Rightarrow> bytes \<Rightarrow> bytes option" where
  "plaintext_of E key b raw = chacha_decrypt E (derive_block_key E key b) (take 12 raw) (drop 12 raw)"

lemma data_block_offset:
  assumes "vol_open v w" and "9 \<le> b" and "b < vv_total_blocks v"
  shows "unat (b * of_nat BLOCK_SIZE) = unat b * BLOCK_SIZE"
    and "unat b * BLOCK_SIZE + BLOCK_SIZE \<le> length (file_of (vv_file v) w)"
proof -
  have t: "unat (vv_total_blocks v) \<le> 262153"
    using assms(1) by (simp add: vol_open_def vol_wf_def word_le_nat_alt)
  moreover have lt: "unat b < unat (vv_total_blocks v)"
    using assms(3) by (simp add: word_less_nat_alt)
  ultimately have "unat b * BLOCK_SIZE < 2 ^ 64" by (simp add: BLOCK_SIZE_def)
  then show "unat (b * of_nat BLOCK_SIZE) = unat b * BLOCK_SIZE"
    by (simp add: unat_word_ariths BLOCK_SIZE_def)
  from lt have "Suc (unat b) * BLOCK_SIZE \<le> unat (vv_total_blocks v) * BLOCK_SIZE" by (intro mult_le_mono1) simp
  with assms(1) show "unat b * BLOCK_SIZE + BLOCK_SIZE \<le> length (file_of (vv_file v) w)"
    by (simp add: vol_open_def)
qed

lemma check_pass: "9 \<le> b \<Longrightarrow> b < vv_total_blocks v \<Longrightarrow> check_data_block v b w = (Inr (), w)"
  by (auto simp: check_data_block_def io_return_def not_less not_le)

lemma block_key_length: "hash_sizes E \<Longrightarrow> length (derive_block_key E k b) = 32"
  by (simp add: derive_block_key_def hash_sizes_def)

lemma read_block_eq:
  assumes "os_reliable E" and "vol_open v w" and "9 \<le> b" and "b < vv_total_blocks v"
  obtains w' where "read_block E v b w =
      (case plaintext_of E (vv_master_key v) b (stored_block v b w) of
         None \<Rightarrow> (Inl InvalidData, w') | Some pt \<Rightarrow> (Inr pt, w'))"
    "file_of (vv_file v) w' = file_of (vv_file v) w" "vol_open v w'"
proof -
  let ?k = "derive_block_key E (vv_master_key v) b"
  note off = data_block_offset [OF assms(2-4)]
  obtain w' where w': "io_bind (seek_start E (vv_file v) (unat b * BLOCK_SIZE)) (\<lambda>_. io_bind (read_exact E (vv_file v) BLOCK_SIZE)
        (\<lambda>raw. case chacha_decrypt E ?k (take NONCE_SIZE raw) (drop NONCE_SIZE raw) of
           None \<Rightarrow> io_fail InvalidData | Some pt \<Rightarrow> io_return pt)) w =
      (case chacha_decrypt E ?k (take NONCE_SIZE (stored_block v b w)) (drop NONCE_SIZE (stored_block v b w)) of
         None \<Rightarrow> io_fail InvalidData | Some pt \<Rightarrow> io_return pt) w'"
    "file_of (vv_file v) w' = file_of (vv_file v) w" "\<And>q. linked q (vv_file v) w' = linked q (vv_file v) w"
    unfolding stored_block_def by (rule read_ok [OF assms(1) off(2)]) blast
  show ?thesis
  proof (rule that)
    show "read_block E v b w =
      (case plaintext_of E (vv_master_key v) b (stored_block v b w) of
         None \<Rightarrow> (Inl InvalidData, w') | Some pt \<Rightarrow> (Inr pt, w'))"
      unfolding read_block_def io_bind_Inr [OF check_pass [OF assms(3,4)]] Let_def off(1) w'(1)
      by (simp add: plaintext_of_def NONCE_SIZE_def io_fail_def io_return_def split: option.split)
    show "vol_open v w'" using assms(2) w'(2,3) by (simp add: vol_open_def)
  qed (rule w'(2))
qed

lemma copy_at_append:
  "p + length a + length b \<le> length c \<Longrightarrow> copy_at (p + length a) b (copy_at p a c) = copy_at p (a @ b) c"
  by (simp add: copy_at_def ac_simps)


lemma chacha_encrypt_total:
  "chacha_laws E \<Longrightarrow> length k = 32 \<Longrightarrow> length n = 12 \<Longrightarrow> length m < 2 ^ 32 \<Longrightarrow> \<exists>c. chacha_encrypt E k n m = Some c"
  unfolding chacha_laws_def by (meson option.exhaust)

lemma chacha_encrypt_length:
  "chacha_laws E \<Longrightarrow> length k = 32 \<Longrightarrow> length n = 12 \<Longrightarrow> chacha_encrypt E k n m = Some c \<Longrightarrow> length c = length m + 16"
  unfolding chacha_laws_def by blast

lemma chacha_decrypt_iff:
  "chacha_laws E \<Longrightarrow> length k = 32 \<Longrightarrow> length n = 12 \<Longrightarrow>
     chacha_decrypt E k n c = Some m \<longleftrightarrow> chacha_encrypt E k n m = Some c"
  unfolding chacha_laws_def by blast

lemma write_block_eq:
  assumes "os_reliable E" and "vol_open v w" and "9 \<le> b" and "b < vv_total_blocks v"
    and "chacha_laws E" and "hash_sizes E" and "length pt = PAYLOAD_SIZE"
  obtains w' nonce ct where "write_block E v b pt w = (Inr (), w')" "length nonce = 12" "length ct = 4084"
    "chacha_encrypt E (derive_block_key E (vv_master_key v) b) nonce pt = Some ct"
    "file_of (vv_file v) w' = copy_at (unat b * BLOCK_SIZE) (nonce @ ct) (file_of (vv_file v) w)" "vol_open v w'"
proof -
  note off = data_block_offset [OF assms(2-4)]
  let ?k = "derive_block_key E (vv_master_key v) b" and ?c = "file_of (vv_file v) w" and ?p = "unat b * BLOCK_SIZE"
  obtain nonce w1 where n: "fill_bytes E NONCE_SIZE w = (nonce, w1)" by force
  then have len: "length nonce = 12" by (auto simp: NONCE_SIZE_def dest: fill_bytes_length)
  have k: "length ?k = 32" by (rule block_key_length [OF assms(6)])
  have lpt: "length pt = 4068" using assms(7) by (simp add: PAYLOAD_SIZE_def BLOCK_SIZE_def)
  then have "length pt < 2 ^ 32" by simp
  then obtain ct where ct: "chacha_encrypt E ?k nonce pt = Some ct"
    using chacha_encrypt_total [OF assms(5) k len] by blast
  from chacha_encrypt_length [OF assms(5) k len ct] lpt have lct: "length ct = 4084" by simp
  let ?w2 = "put_bytes E (vv_file v) nonce (os_tick (set_pos (vv_file v) ?p (os_tick w1)))"
  let ?w3 = "put_bytes E (vv_file v) ct (os_tick ?w2)"
  have w1: "file_of (vv_file v) w1 = ?c" "linked (vv_path v) (vv_file v) w1 = linked (vv_path v) (vv_file v) w"
    using n by (auto simp: fill_bytes_def file_of_def linked_def)
  have ne: "nonce \<noteq> []" "ct \<noteq> []" using len lct by auto
  have room: "?p + length nonce + length ct \<le> length ?c"
    using off(2) len lct by (simp add: BLOCK_SIZE_def)
  have "file_of (vv_file v) ?w3 = store_at (?p + length nonce) ct (store_at ?p nonce ?c)"
    using ne by (simp add: frame_simps w1)
  also have "store_at ?p nonce ?c = copy_at ?p nonce ?c"
    by (rule store_at_in_range) (use room in linarith)
  also have "store_at (?p + length nonce) ct (copy_at ?p nonce ?c) = copy_at (?p + length nonce) ct (copy_at ?p nonce ?c)"
    by (rule store_at_in_range) (use room in \<open>simp add: length_copy_at\<close>)
  also have "\<dots> = copy_at ?p (nonce @ ct) ?c" by (rule copy_at_append [OF room])
  finally have f3: "file_of (vv_file v) ?w3 = copy_at ?p (nonce @ ct) ?c" .
  have l3: "linked (vv_path v) (vv_file v) ?w3"
    using assms(2) by (simp add: frame_simps w1 vol_open_def)
  obtain w' where w': "freeze_timestamps E v ?w3 = (Inr (), w')" "file_of (vv_file v) w' = file_of (vv_file v) ?w3"
    "\<And>q. linked q (vv_file v) w' = linked q (vv_file v) ?w3"
    by (rule freeze_ok [OF assms(1) l3]) blast
  have "write_block E v b pt w = (Inr (), w')"
    by (simp add: write_block_def io_bind_def check_pass [OF assms(3,4)] n ct off(1) seek_ok [OF assms(1)]
        write_ok [OF assms(1)] w'(1))
  moreover have "length (file_of (vv_file v) w') = length ?c"
    unfolding w'(2) f3 using room by (simp add: length_copy_at)
  then have "vol_open v w'"
    using assms(2) l3 w'(3) by (simp add: vol_open_def)
  ultimately show ?thesis using len lct ct f3 w'(2) by (intro that) simp_all
qed

lemma stored_block_same:
  assumes "vol_open v w" and "b < vv_total_blocks v" and "length bs = BLOCK_SIZE" and "9 \<le> b"
    and "file_of (vv_file v) w' = copy_at (unat b * BLOCK_SIZE) bs (file_of (vv_file v) w)"
  shows "stored_block v b w' = bs"
  using data_block_offset(2) [OF assms(1,4,2)] assms(3,5) by (simp add: stored_block_def subslice_copy_at)

lemma stored_block_other:
  assumes "vol_open v w" and "9 \<le> b" and "b < vv_total_blocks v" and "length bs = BLOCK_SIZE" and "c \<noteq> b"
    and "file_of (vv_file v) w' = copy_at (unat b * BLOCK_SIZE) bs (file_of (vv_file v) w)"
  shows "stored_block v c w' = stored_block v c w"
proof -
  from assms(5) have "unat c \<noteq> unat b" by (simp add: word_unat_eq_iff)
  then have "Suc (unat c) \<le> unat b \<or> Suc (unat b) \<le> unat c" by linarith
  then have "unat c * BLOCK_SIZE + BLOCK_SIZE \<le> unat b * BLOCK_SIZE \<or> unat b * BLOCK_SIZE + length bs \<le> unat c * BLOCK_SIZE"
    using assms(4) by (auto simp: BLOCK_SIZE_def)
  moreover have "unat b * BLOCK_SIZE + length bs \<le> length (file_of (vv_file v) w)"
    using data_block_offset(2) [OF assms(1-3)] assms(4) by simp
  ultimately show ?thesis
    unfolding stored_block_def assms(6) by (intro subslice_copy_at_disjoint)
qed

lemma write_block_stores:
  assumes "os_reliable E" and "chacha_laws E" and "hash_sizes E" and "vol_open v w"
    and "9 \<le> b" and "b < vv_total_blocks v" and "length pt = PAYLOAD_SIZE"
  obtains w' raw where "write_block E v b pt w = (Inr (), w')" "vol_open v w'" "length raw = BLOCK_SIZE"
    "plaintext_of E (vv_master_key v) b (stored_block v b w') = Some pt" "\<forall>c. c \<noteq> b \<longrightarrow> stored_block v c w' = stored_block v c w"
    "file_of (vv_file v) w' = copy_at (unat b * BLOCK_SIZE) raw (file_of (vv_file v) w)"
proof -
  let ?k = "derive_block_key E (vv_master_key v) b"
  obtain w' nonce ct where wr: "write_block E v b pt w = (Inr (), w')" "length nonce = 12" "length ct = 4084"
    "chacha_encrypt E ?k nonce pt = Some ct"
    "file_of (vv_file v) w' = copy_at (unat b * BLOCK_SIZE) (nonce @ ct) (file_of (vv_file v) w)" "vol_open v w'"
    by (rule write_block_eq [OF assms(1,4-6,2,3,7)])
  have l: "length (nonce @ ct) = BLOCK_SIZE" using wr(2,3) by (simp add: BLOCK_SIZE_def)
  have "stored_block v b w' = nonce @ ct" by (rule stored_block_same [OF assms(4,6) l assms(5) wr(5)])
  then have "plaintext_of E (vv_master_key v) b (stored_block v b w') = Some pt"
    using chacha_decrypt_iff [OF assms(2) block_key_length [OF assms(3)] wr(2)] wr(2,4) by (simp add: plaintext_of_def)
  then show thesis
    using wr(1,5,6) l stored_block_other [OF assms(4-6) l _ wr(5)] by (intro that [of w' "nonce @ ct"]) simp_all
qed

text \<open>A block that is written is read back: on an open volume, with a working operating system, writing
  4068 bytes to any data block succeeds, keeps the volume open, leaves the stored bytes of every other
  block (the superblock and the bitmap included) as they were, and a following read returns the bytes written.\<close>

lemma write_read_block:
  assumes "os_reliable E" and "chacha_laws E" and "hash_sizes E" and "vol_open v w"
    and "9 \<le> b" and "b < vv_total_blocks v" and "length pt = PAYLOAD_SIZE"
  shows "\<exists>w' w''. write_block E v b pt w = (Inr (), w') \<and> vol_open v w' \<and>
    (\<forall>c. c \<noteq> b \<longrightarrow> stored_block v c w' = stored_block v c w) \<and> read_block E v b w' = (Inr pt, w'')"
proof -
  obtain w' where wr: "write_block E v b pt w = (Inr (), w')" "vol_open v w'"
    "plaintext_of E (vv_master_key v) b (stored_block v b w') = Some pt" "\<forall>c. c \<noteq> b \<longrightarrow> stored_block v c w' = stored_block v c w"
    by (rule write_block_stores [OF assms])
  obtain w'' where "read_block E v b w' = (Inr pt, w'')"
    by (rule read_block_eq [OF assms(1) wr(2) assms(5,6)]) (simp add: wr(3))
  with wr show ?thesis by blast
qed

definition demo_disk :: world where
  "demo_disk = demo_world\<lparr>paths := [[] \<mapsto> 0],
     inodes := (\<lambda>_. \<lparr>content = zeros 53248, durable = zeros 53248, atime = 0, mtime = 0\<rparr>)\<rparr>"

lemma demo_disk_open: "vol_open demo_volume demo_disk"
  using demo_volume_wf
  by (simp add: vol_open_def linked_def file_of_def demo_disk_def demo_world_def) (simp add: demo_volume_def BLOCK_SIZE_def)

subsection \<open>The superblock\<close>

lemma copy_at_next: "length p = n \<Longrightarrow> m = n + length a \<Longrightarrow> copy_at n a (p @ drop n raw) = (p @ a) @ drop m raw"
  by (simp add: copy_at_def add.commute)

lemma write_superblock_layout:
  assumes "length raw = 4096" and "length (sb_master_key_hash info) = 32"
  shows "write_superblock raw info = u32_to_le SUPERBLOCK_MAGIC @ u32_to_le (sb_version info) @
    u64_to_le (sb_total_blocks info) @ u64_to_le (sb_free_blocks info) @ sb_master_key_hash info @ zeros 4040"
proof -
  let ?m = "u32_to_le SUPERBLOCK_MAGIC" and ?v = "u32_to_le (sb_version info)" and ?h = "sb_master_key_hash info"
    and ?t = "u64_to_le (sb_total_blocks info)" and ?f = "u64_to_le (sb_free_blocks info)"
  have 1: "copy_at 0 ?m raw = ?m @ drop 4 raw"
    using copy_at_next [of "[]" 0 4 ?m raw] by simp
  have 2: "copy_at 4 ?v (?m @ drop 4 raw) = (?m @ ?v) @ drop 8 raw"
    by (rule copy_at_next) simp_all
  have 3: "copy_at 8 ?t ((?m @ ?v) @ drop 8 raw) = ((?m @ ?v) @ ?t) @ drop 16 raw"
    by (rule copy_at_next) simp_all
  have 4: "copy_at 16 ?f (((?m @ ?v) @ ?t) @ drop 16 raw) = (((?m @ ?v) @ ?t) @ ?f) @ drop 24 raw"
    by (rule copy_at_next) simp_all
  have 5: "copy_at 24 ?h ((((?m @ ?v) @ ?t) @ ?f) @ drop 24 raw) = ((((?m @ ?v) @ ?t) @ ?f) @ ?h) @ drop 56 raw"
    by (rule copy_at_next) (simp_all add: assms(2))
  have len: "length (((((?m @ ?v) @ ?t) @ ?f) @ ?h) @ drop 56 raw) - 56 = 4040"
    using assms by simp
  have 6: "copy_at 56 (zeros 4040) (((((?m @ ?v) @ ?t) @ ?f) @ ?h) @ drop 56 raw) =
      (((((?m @ ?v) @ ?t) @ ?f) @ ?h) @ zeros 4040) @ drop 4096 raw"
    by (rule copy_at_next) (simp_all add: assms(2))
  have "drop 4096 raw = []" using assms(1) by simp
  then show ?thesis
    unfolding write_superblock_def Let_def 1 2 3 4 5 len 6 by (simp only: append_assoc append_Nil2)
qed

lemma read_superblock_layout:
  assumes "length (sb_master_key_hash info) = 32"
  shows "read_superblock (u32_to_le SUPERBLOCK_MAGIC @ u32_to_le (sb_version info) @ u64_to_le (sb_total_blocks info) @
    u64_to_le (sb_free_blocks info) @ sb_master_key_hash info @ zeros 4040) = Some info"
  using assms by (simp add: read_superblock_def subslice_def copy_at_def)

text \<open>The superblock is read back as written: for every 4096-byte buffer, whatever it held, writing a superblock
  and reading it returns the same version, block counts and key hash.\<close>

lemma superblock_roundtrip:
  assumes "length raw = BLOCK_SIZE" and "length (sb_master_key_hash info) = 32"
  shows "read_superblock (write_superblock raw info) = Some info"
  using assms by (simp only: BLOCK_SIZE_def write_superblock_layout read_superblock_layout)

end
