(* ===== verification/Volume_Persist.thy ===== *)
theory Volume_Persist
  imports Volume_Store
begin

text \<open>
  What the container file says about a volume: creating it, reopening it with the right or a wrong key, the
  bitmap after an allocation, and what a power failure leaves.
\<close>

text \<open>The file holds this volume's superblock and bitmap.\<close>

definition on_disk :: "env \<Rightarrow> virtual_volume \<Rightarrow> bytes \<Rightarrow> bool" where
  "on_disk E v c \<longleftrightarrow> length c = unat (vv_total_blocks v) * BLOCK_SIZE \<and>
     (\<exists>sb. read_superblock (subslice 0 4096 c) = Some sb \<and> sb_total_blocks sb = vv_total_blocks v \<and>
           sb_master_key_hash sb = sha256 E (vv_master_key v)) \<and>
     subslice 4096 36864 c = vv_bitmap v"

lemma layout_offsets [simp]:
  "unat (BITMAP_START_BLOCK * of_nat BLOCK_SIZE) = 4096" "unat BITMAP_BLOCKS * BLOCK_SIZE = 32768"
  by (simp_all add: BITMAP_START_BLOCK_def BITMAP_BLOCKS_def BLOCK_SIZE_def)

lemma on_disk_length: "vol_wf v \<Longrightarrow> on_disk E v c \<Longrightarrow> 36864 \<le> length c"
  using unat_total [of v] by (simp add: on_disk_def BLOCK_SIZE_def)

lemma open_rw_ok:
  assumes "os_reliable E" and "0 \<notin> set path" and "paths w path = Some i"
  obtains fd w' where "open_rw E path w = (Inr fd, w')" "file_of fd w' = content (inodes w i)"
    "durable_of fd w' = durable (inodes w i)" "linked path fd w'"
  using assms
  by (auto simp: open_rw_def os_call_reliable io_bind_def lookup_path_def new_fd_def os_tick_def file_of_def
      durable_of_def linked_def)

lemma open_existing_ok:
  assumes "os_reliable E" and "0 \<notin> set path" and "paths w path = Some i" and "vol_wf v"
    and "on_disk E v (content (inodes w i))"
  obtains fd w' where "open_existing E path key w =
     (if sha256 E key = sha256 E (vv_master_key v)
      then Inr (v\<lparr>vv_file := fd, vv_master_key := key, vv_path := path, vv_bitmap_write_count := 0\<rparr>)
      else Inl PermissionDenied, w')"
    "sha256 E key = sha256 E (vv_master_key v) \<Longrightarrow> linked path fd w' \<and> file_of fd w' = content (inodes w i)"
proof -
  obtain fd w1 where o: "open_rw E path w = (Inr fd, w1)" "file_of fd w1 = content (inodes w i)" "linked path fd w1"
    by (rule open_rw_ok [OF assms(1-3)])
  from assms(4,5) o(2) have len: "36864 \<le> length (file_of fd w1)" by (simp add: on_disk_length)
  then have l1: "0 + BLOCK_SIZE \<le> length (file_of fd w1)" by (simp add: BLOCK_SIZE_def)
  obtain w2 where r1: "\<And>f :: bytes \<Rightarrow> (virtual_volume, 'a) io.
      io_bind (seek_start E fd 0) (\<lambda>_. io_bind (read_exact E fd BLOCK_SIZE) f) w1 =
      f (subslice 0 (0 + BLOCK_SIZE) (file_of fd w1)) w2"
    and w2: "file_of fd w2 = file_of fd w1" "\<And>q. linked q fd w2 = linked q fd w1"
    by (rule read_ok [OF assms(1) l1]) blast
  have l2: "4096 + 32768 \<le> length (file_of fd w2)" using len w2(1) by simp
  obtain w3 where r2: "\<And>f :: bytes \<Rightarrow> (virtual_volume, 'a) io.
      io_bind (seek_start E fd 4096) (\<lambda>_. io_bind (read_exact E fd 32768) f) w2 =
      f (subslice 4096 (4096 + 32768) (file_of fd w2)) w3"
    and w3: "file_of fd w3 = file_of fd w2" "\<And>q. linked q fd w3 = linked q fd w2"
    by (rule read_ok [OF assms(1) l2]) blast
  from assms(5) o(2) obtain sb where sb: "read_superblock (subslice 0 (0 + BLOCK_SIZE) (file_of fd w1)) = Some sb"
    "sb_total_blocks sb = vv_total_blocks v" "sb_master_key_hash sb = sha256 E (vv_master_key v)"
    and bm: "subslice 4096 36864 (file_of fd w2) = vv_bitmap v"
    using w2(1) by (auto simp: on_disk_def BLOCK_SIZE_def)
  have rng: "\<not> vv_total_blocks v < DATA_START_BLOCK" "\<not> vv_total_blocks v > DATA_START_BLOCK + MAX_DATA_BLOCKS"
    using assms(4) by (simp_all add: vol_wf_def not_less)
  have free: "count_free (vv_bitmap v) (unat (vv_total_blocks v - DATA_START_BLOCK)) = vv_free_blocks v"
    using assms(4) by (simp add: count_free_card vol_wf_def data_n_def)
  show ?thesis
  proof (rule that [of fd "if sha256 E key = sha256 E (vv_master_key v) then w3 else w2"])
    show "open_existing E path key w =
      (if sha256 E key = sha256 E (vv_master_key v)
       then Inr (v\<lparr>vv_file := fd, vv_master_key := key, vv_path := path, vv_bitmap_write_count := 0\<rparr>)
       else Inl PermissionDenied, if sha256 E key = sha256 E (vv_master_key v) then w3 else w2)"
      unfolding open_existing_def io_bind_Inr [where m = "open_rw E path", OF o(1)] r1 sb(1)
      using rng free
      by (auto simp: sb(2,3) hash_master_key_def io_fail_def r2 bm io_return_def Let_def
          intro!: virtual_volume.equality simp del: layout_values)
  qed (use w2 w3 o in simp)
qed

subsection \<open>The bitmap on disk\<close>

lemma write_bitmap_ok:
  assumes "os_reliable E" and "vol_open v w"
  obtains w' where "write_bitmap E v w = (Inr (), w')" "vol_open v w'"
    "file_of (vv_file v) w' = copy_at 4096 (vv_bitmap v) (file_of (vv_file v) w)"
    "durable_of (vv_file v) w' = file_of (vv_file v) w'"
proof -
  let ?fd = "vv_file v" and ?b = "vv_bitmap v"
  have b: "length ?b = 32768" and t: "9 \<le> unat (vv_total_blocks v)"
    using assms(2) unat_total by (auto simp: vol_open_def vol_wf_def bitmap_wf_def)
  then have room: "4096 + length ?b \<le> length (file_of ?fd w)"
    using assms(2) by (simp add: vol_open_def BLOCK_SIZE_def)
  let ?w1 = "put_bytes E ?fd ?b (os_tick (set_pos ?fd 4096 (os_tick w)))"
  have f1: "file_of ?fd ?w1 = copy_at 4096 ?b (file_of ?fd w)"
    using b room by (auto simp: frame_simps store_at_in_range)
  obtain w2 where w2: "sync_all E ?fd ?w1 = (Inr (), w2)" "file_of ?fd w2 = file_of ?fd ?w1"
    "durable_of ?fd w2 = file_of ?fd ?w1" "\<And>q. linked q ?fd w2 = linked q ?fd ?w1"
    by (rule sync_ok [OF assms(1)]) blast
  have l2: "linked (vv_path v) ?fd w2"
    using assms(2) w2(4) by (simp add: frame_simps vol_open_def)
  obtain w' where w': "freeze_timestamps E v w2 = (Inr (), w')" "file_of ?fd w' = file_of ?fd w2"
    "durable_of ?fd w' = durable_of ?fd w2" "\<And>q. linked q ?fd w' = linked q ?fd w2"
    by (rule freeze_ok [OF assms(1) l2]) blast
  show ?thesis
  proof (rule that)
    show "write_bitmap E v w = (Inr (), w')"
      by (simp add: write_bitmap_def io_bind_def seek_ok [OF assms(1)] write_ok [OF assms(1)] w2(1) w'(1))
    show "file_of ?fd w' = copy_at 4096 ?b (file_of ?fd w)" by (simp only: w' w2 f1)
    then show "vol_open v w'"
      using assms(2) l2 w'(4) room by (simp add: vol_open_def length_copy_at)
    show "durable_of ?fd w' = file_of ?fd w'" by (simp only: w' w2)
  qed
qed

lemma on_disk_bitmap:
  assumes "vol_wf v" and "on_disk E v c" and "length bits = 32768"
  shows "on_disk E (v\<lparr>vv_bitmap := bits, vv_free_blocks := n\<rparr>) (copy_at 4096 bits c)"
proof -
  have room: "4096 + length bits \<le> length c" using on_disk_length [OF assms(1,2)] assms(3) by simp
  have "subslice 0 4096 (copy_at 4096 bits c) = subslice 0 4096 c"
    by (rule subslice_copy_at_disjoint [OF room]) simp
  moreover have "subslice 4096 36864 (copy_at 4096 bits c) = bits"
    by (rule subslice_copy_at) (use room assms(3) in simp_all)
  ultimately show ?thesis
    using assms(2) room by (simp add: on_disk_def length_copy_at)
qed

lemma crash_path:
  assumes "linked path fd w" and "durable_of fd w = file_of fd w"
  obtains i where "paths (crash w) path = Some i" "content (inodes (crash w) i) = file_of fd w" "0 \<notin> set path"
  using assms by (auto simp: linked_def crash_def durable_of_def file_of_def)

lemma reopen_after_crash:
  assumes "os_reliable E" and "vol_open v w" and od: "on_disk E v (file_of (vv_file v) w)"
    and "durable_of (vv_file v) w = file_of (vv_file v) w"
  obtains fd w' where "open_existing E (vv_path v) (vv_master_key v) (crash w) =
    (Inr (v\<lparr>vv_file := fd, vv_bitmap_write_count := 0\<rparr>), w')"
proof -
  have wf: "vol_wf v" and "linked (vv_path v) (vv_file v) w" using assms(2) by (simp_all add: vol_open_def)
  from this(2) assms(4) obtain j where j: "paths (crash w) (vv_path v) = Some j"
    "content (inodes (crash w) j) = file_of (vv_file v) w" "0 \<notin> set (vv_path v)"
    by (rule crash_path)
  from od have od': "on_disk E v (content (inodes (crash w) j))" by (simp only: j(2))
  obtain fd w' where op: "open_existing E (vv_path v) (vv_master_key v) (crash w) =
     (if sha256 E (vv_master_key v) = sha256 E (vv_master_key v)
      then Inr (v\<lparr>vv_file := fd, vv_master_key := vv_master_key v, vv_path := vv_path v, vv_bitmap_write_count := 0\<rparr>)
      else Inl PermissionDenied, w')"
    by (rule open_existing_ok [OF assms(1) j(3,1) wf od'])
  have "v\<lparr>vv_file := fd, vv_master_key := vv_master_key v, vv_path := vv_path v, vv_bitmap_write_count := 0\<rparr> =
      v\<lparr>vv_file := fd, vv_bitmap_write_count := 0\<rparr>" by simp
  with op show ?thesis by (intro that) simp
qed

lemma allocate_durable:
  assumes "os_reliable E" and "vol_open v w" and "on_disk E v (file_of (vv_file v) w)" and "vol_free v \<noteq> {}"
  obtains b v' w' where "allocate_block E v w = (Inr b, v', w')" "b \<in> vol_free v" "vol_free v' = vol_free v - {b}"
    "vol_open v' w'" "on_disk E v' (file_of (vv_file v') w')" "durable_of (vv_file v') w' = file_of (vv_file v') w'"
    "vv_path v' = vv_path v" "vv_master_key v' = vv_master_key v"
proof -
  have wf: "vol_wf v" using assms(2) by (simp add: vol_open_def)
  obtain i where i: "i < data_n v" "bit_free (vv_bitmap v) i"
      "allocate_block E v w =
         (case write_bitmap E (marked i v) w of
            (Inl e, w') \<Rightarrow> (Inl e, marked i v, w') | (Inr _, w') \<Rightarrow> (Inr (9 + of_nat i), marked i v, w'))"
    by (rule allocate_block_cases [OF wf, of E w]) (use assms(4) in blast)+
  let ?v = "marked i v"
  have v: "vol_wf ?v" "vol_free ?v = vol_free v - {9 + of_nat i}" using marked_wf [OF wf i(1,2)] by blast+
  have "vol_open ?v w" using assms(2) v(1) by (simp add: vol_open_def marked_def)
  then obtain w' where w': "write_bitmap E ?v w = (Inr (), w')" "vol_open ?v w'"
    "file_of (vv_file ?v) w' = copy_at 4096 (vv_bitmap ?v) (file_of (vv_file ?v) w)"
    "durable_of (vv_file ?v) w' = file_of (vv_file ?v) w'"
    by (rule write_bitmap_ok [OF assms(1)])
  have "length (vv_bitmap ?v) = 32768" using v(1) by (simp add: vol_wf_def bitmap_wf_def)
  from on_disk_bitmap [OF wf assms(3) this, of "vv_free_blocks v - 1"]
  have od: "on_disk E ?v (file_of (vv_file ?v) w')" unfolding w'(3) by (simp add: marked_def)
  have "9 + of_nat i \<in> vol_free v" using i(1,2) unfolding vol_free_image [OF wf] unmarked_free by blast
  moreover have "allocate_block E v w = (Inr (9 + of_nat i), ?v, w')" using i(3) w'(1) by simp
  moreover have "vv_path ?v = vv_path v" "vv_master_key ?v = vv_master_key v" by (simp_all add: marked_def)
  ultimately show ?thesis using w'(2,4) v(2) od by (intro that)
qed

text \<open>C11: Allocation succeeds and is durable: on an open volume whose file describes it, with a working operating
  system and a free block, allocation returns a free block, and after a power failure right afterwards
  reopening with the same key yields the volume with that block allocated and the same free count.\<close>

theorem allocation_survives_crash:
  assumes "os_reliable E" and "vol_open v w" and "on_disk E v (file_of (vv_file v) w)" and "vol_free v \<noteq> {}"
  shows "\<exists>b v' w' fd w''. allocate_block E v w = (Inr b, v', w') \<and> b \<in> vol_free v \<and> vol_free v' = vol_free v - {b} \<and>
    vol_open v' w' \<and> on_disk E v' (file_of (vv_file v') w') \<and>
    open_existing E (vv_path v) (vv_master_key v) (crash w') =
      (Inr (v'\<lparr>vv_file := fd, vv_bitmap_write_count := 0\<rparr>), w'')"
proof -
  obtain b v' w' where a: "allocate_block E v w = (Inr b, v', w')" "b \<in> vol_free v" "vol_free v' = vol_free v - {b}"
    "vol_open v' w'" "on_disk E v' (file_of (vv_file v') w')" "durable_of (vv_file v') w' = file_of (vv_file v') w'"
    "vv_path v' = vv_path v" "vv_master_key v' = vv_master_key v" by (rule allocate_durable [OF assms])
  obtain fd w'' where "open_existing E (vv_path v') (vv_master_key v') (crash w') = (Inr (v'\<lparr>vv_file := fd, vv_bitmap_write_count := 0\<rparr>), w'')"
    by (rule reopen_after_crash [OF assms(1) a(4-6)])
  with a show ?thesis by metis
qed

text \<open>A fresh container: superblock and zeros.\<close>

definition fresh_file :: "bytes \<Rightarrow> nat \<Rightarrow> bytes" where
  "fresh_file raw n = raw @ zeros 32768 @ zeros (n * 4096)"

lemma on_disk_fresh:
  assumes "length raw = 4096" and "read_superblock raw = Some sb" and "sb_total_blocks sb = vv_total_blocks v"
    and "sb_master_key_hash sb = sha256 E (vv_master_key v)" and "vv_bitmap v = zeros 32768"
    and "unat (vv_total_blocks v) = 9 + n"
  shows "on_disk E v (fresh_file raw n)"
proof -
  have "subslice 0 4096 (fresh_file raw n) = raw"
    using assms(1) subslice_append_mid [of 0 "[]" 4096 raw] by (simp add: fresh_file_def)
  moreover have "subslice 4096 36864 (fresh_file raw n) = zeros 32768"
    unfolding fresh_file_def by (rule subslice_append_mid) (simp_all add: assms(1))
  moreover have "length (fresh_file raw n) = (9 + n) * 4096"
    by (simp add: fresh_file_def assms(1))
  ultimately show ?thesis
    using assms(2-6) by (simp add: on_disk_def BLOCK_SIZE_def)
qed

lemma fresh_superblock:
  assumes "length (sb_master_key_hash sb) = 32"
  shows "length (write_superblock (zeros 4096) sb) = 4096" "read_superblock (write_superblock (zeros 4096) sb) = Some sb"
  using assms by (simp_all only: write_superblock_layout length_replicate read_superblock_layout) simp

definition demo_superblock :: superblock_info where
  "demo_superblock = \<lparr>sb_version = 3, sb_total_blocks = 13, sb_free_blocks = 4, sb_master_key_hash = zeros 32\<rparr>"

lemma demo_disk_on_disk: "on_disk demo_env demo_volume (fresh_file (write_superblock (zeros 4096) demo_superblock) 4)"
proof (rule on_disk_fresh [where sb = demo_superblock])
  have "length (sb_master_key_hash demo_superblock) = 32" by (simp add: demo_superblock_def)
  then show "length (write_superblock (zeros 4096) demo_superblock) = 4096"
    and "read_superblock (write_superblock (zeros 4096) demo_superblock) = Some demo_superblock"
    by (rule fresh_superblock)+
  show "sb_master_key_hash demo_superblock = sha256 demo_env (vv_master_key demo_volume)"
    by (simp add: demo_superblock_def demo_volume_def demo_env_def demo_pad32_def)
qed (simp_all add: demo_superblock_def demo_volume_def)

text \<open>A world with a container that describes \<open>demo_volume\<close>.\<close>

definition demo_vault :: world where
  "demo_vault = demo_disk\<lparr>inodes := (\<lambda>_. \<lparr>content = fresh_file (write_superblock (zeros 4096) demo_superblock) 4,
     durable = [], atime = 0, mtime = 0\<rparr>)\<rparr>"

lemma demo_vault_on_disk: "on_disk demo_env demo_volume (file_of (vv_file demo_volume) demo_vault)"
  using demo_disk_on_disk by (simp add: file_of_def demo_vault_def)

lemma demo_vault_open: "vol_open demo_volume demo_vault"
  using demo_disk_open demo_vault_on_disk by (simp add: vol_open_def on_disk_def linked_def demo_vault_def)

lemma demo_volume_fields: "vv_path demo_volume = []" "vv_master_key demo_volume = zeros 32"
  by (simp_all add: demo_volume_def)

theorem allocation_survives_crash_witness:
  "\<exists>b v' w' fd w''. allocate_block demo_env demo_volume demo_vault = (Inr b, v', w') \<and>
     open_existing demo_env [] (zeros 32) (crash w') = (Inr (v'\<lparr>vv_file := fd, vv_bitmap_write_count := 0\<rparr>), w'')"
proof -
  have "9 \<in> vol_free demo_volume" by (simp add: vol_free_def demo_volume_def bit_free_bit)
  then have "vol_free demo_volume \<noteq> {}" by blast
  from allocation_survives_crash [OF demo_os_reliable demo_vault_open demo_vault_on_disk this] show ?thesis
    unfolding demo_volume_fields by blast
qed

subsection \<open>Creating a volume\<close>

lemma create_file_ok:
  assumes "os_reliable E" and "0 \<notin> set path" and "paths w path = None"
  obtains fd w' where "open_create_new E path w = (Inr fd, w')" "file_of fd w' = []" "linked path fd w'"
  using assms
  by (auto simp: open_create_new_def os_call_reliable new_fd_def os_tick_def file_of_def linked_def Let_def)

lemma set_len_ok:
  assumes "os_reliable E"
  obtains w' where "set_len E fd n w = (Inr (), w')" "file_of fd w' = take n (file_of fd w) @ zeros (n - length (file_of fd w))"
    "\<And>q. linked q fd w' = linked q fd w"
  using assms by (auto simp: set_len_def os_call_reliable upd_inode_def os_tick_def file_of_def linked_def)

lemma zeros_split: "zeros (a + b) = zeros a @ zeros b"
  by (rule replicate_add)

lemma fresh_writes:
  assumes "length raw = 4096"
  shows "store_at 4096 (zeros 32768) (store_at 0 raw (zeros ((9 + n) * 4096))) = fresh_file raw n"
proof -
  have "zeros ((9 + n) * 4096) = zeros 4096 @ zeros 32768 @ zeros (n * 4096)"
    by (simp only: zeros_split [symmetric]) (simp add: algebra_simps)
  then have "store_at 0 raw (zeros ((9 + n) * 4096)) = raw @ zeros 32768 @ zeros (n * 4096)"
    using assms by (simp only: store_at_def) simp
  then show ?thesis
    using assms by (simp only: store_at_def fresh_file_def) simp
qed

definition created :: "nat \<Rightarrow> bytes \<Rightarrow> bytes \<Rightarrow> u64 \<Rightarrow> virtual_volume" where
  "created fd path key n = \<lparr>vv_file = fd, vv_master_key = key, vv_total_blocks = DATA_START_BLOCK + n, vv_free_blocks = n,
     vv_bitmap = zeros 32768, vv_path = path, vv_bitmap_write_count = 0\<rparr>"

lemma unat_created: "n \<le> MAX_DATA_BLOCKS \<Longrightarrow> unat (DATA_START_BLOCK + n) = 9 + unat n"
  by (simp add: word_le_nat_alt unat_word_ariths)

lemma created_wf: "n \<le> MAX_DATA_BLOCKS \<Longrightarrow> vol_wf (created fd path key n)"
  by (simp add: vol_wf_def created_def bitmap_wf_def data_n_def word_le_nat_alt unat_word_ariths unmarked_zeros)

lemma created_free:
  assumes "n \<le> MAX_DATA_BLOCKS"
  shows "vol_free (created fd path key n) = (\<lambda>i. 9 + of_nat i) ` {..<unat n}"
proof -
  have "unat n \<le> 262144" using assms by (simp add: word_le_nat_alt)
  then show ?thesis
    unfolding vol_free_image [OF created_wf [OF assms]] by (simp add: created_def data_n_def unmarked_zeros)
qed

lemma create_new_ok:
  assumes "os_reliable E" and "hash_sizes E" and "0 \<notin> set path" and "paths w path = None" and "n \<le> MAX_DATA_BLOCKS"
  obtains fd w' where "create_new E path key n w = (Inr (created fd path key n), w')"
    "vol_open (created fd path key n) w'" "on_disk E (created fd path key n) (file_of fd w')"
    "durable_of fd w' = file_of fd w'"
proof -
  let ?t = "DATA_START_BLOCK + n"
  let ?sb = "\<lparr>sb_version = VAULT_VERSION, sb_total_blocks = ?t, sb_free_blocks = n, sb_master_key_hash = hash_master_key E key\<rparr>"
  let ?raw = "write_superblock (zeros 4096) ?sb"
  have raw: "length ?raw = 4096" "read_superblock ?raw = Some ?sb"
    using assms(2) by (intro fresh_superblock; simp add: hash_master_key_def hash_sizes_def)+
  have ut: "unat ?t = 9 + unat n" by (rule unat_created [OF assms(5)])
  then have "unat (?t * of_nat BLOCK_SIZE) = (9 + unat n) * 4096"
    using assms(5) by (simp add: unat_word_ariths BLOCK_SIZE_def word_le_nat_alt)
  note size = this
  obtain fd w1 where w1: "open_create_new E path w = (Inr fd, w1)" "file_of fd w1 = []" "linked path fd w1"
    by (rule create_file_ok [OF assms(1,3,4)])
  obtain w2 where w2: "set_len E fd ((9 + unat n) * 4096) w1 = (Inr (), w2)"
    "file_of fd w2 = zeros ((9 + unat n) * 4096)" "\<And>q. linked q fd w2 = linked q fd w1"
    by (rule set_len_ok [OF assms(1), of fd "(9 + unat n) * 4096" w1]) (simp add: w1(2))
  let ?w3 = "put_bytes E fd ?raw (os_tick (set_pos fd 0 (os_tick w2)))"
  let ?w4 = "put_bytes E fd (zeros 32768) (os_tick (set_pos fd 4096 (os_tick ?w3)))"
  have "?raw \<noteq> []" using raw(1) by auto
  then have f4: "file_of fd ?w4 = fresh_file ?raw (unat n)"
    using fresh_writes [OF raw(1)] by (simp add: frame_simps w2(2))
  obtain w5 where w5: "sync_all E fd ?w4 = (Inr (), w5)" "file_of fd w5 = file_of fd ?w4"
    "durable_of fd w5 = file_of fd ?w4" "\<And>q. linked q fd w5 = linked q fd ?w4"
    by (rule sync_ok [OF assms(1)]) blast
  have od: "on_disk E (created fd path key n) (file_of fd w5)"
    unfolding w5(2) f4 by (rule on_disk_fresh [OF raw]) (simp_all only: created_def ut hash_master_key_def
      virtual_volume.simps superblock_info.simps)
  have "create_new E path key n w = (Inr (created fd path key n), w5)"
    unfolding create_new_def created_def Let_def io_bind_Inr [where m = "open_create_new E path", OF w1(1)] size
      io_bind_Inr [where m = "set_len E fd ((9 + unat n) * 4096)", OF w2(1)]
    by (simp add: io_bind_def seek_ok [OF assms(1)] write_ok [OF assms(1)] io_return_def BLOCK_SIZE_def
        BITMAP_BLOCKS_def BITMAP_START_BLOCK_def w5(1) del: layout_values)
  moreover have "vol_open (created fd path key n) w5"
    using od created_wf [OF assms(5)] w5(4) w1(3) w2(3) by (simp add: vol_open_def on_disk_def created_def frame_simps)
  moreover have "durable_of fd w5 = file_of fd w5" by (simp only: w5(2,3))
  ultimately show ?thesis using od by (intro that)
qed

lemma open_or_create_absent:
  assumes "os_reliable E" and "paths w path = None" and "n \<le> MAX_DATA_BLOCKS"
  shows "open_or_create E path key n w = create_new E path key n (os_tick (os_tick (os_tick (w :: 'a world_scheme))))"
proof -
  have absent: "\<exists>e. fs_len E path w' = (Inl e, os_tick w')" if "paths w' path = None" for w' :: "'a world_scheme"
    using assms(1) that by (auto simp: fs_len_def os_call_reliable io_bind_def lookup_path_def os_tick_def)
  have gone: "path_exists E path w' = (False, os_tick w')" if "paths w' path = None" for w' :: "'a world_scheme"
    using absent [OF that] by (auto simp: path_exists_def)
  have n: "\<not> n > MAX_DATA_BLOCKS" using assms(3) by (simp only: not_less)
  obtain e where "fs_len E path w = (Inl e, os_tick w)" using absent assms(2) by blast
  moreover have "paths (os_tick w) path = None" "paths (os_tick (os_tick w)) path = None"
    using assms(2) by (simp_all add: os_tick_def)
  ultimately show ?thesis
    using n by (simp add: open_or_create_def gone del: layout_values)
qed

lemma open_or_create_present:
  assumes "os_reliable E" and "0 \<notin> set path" and "paths w path = Some i" and "content (inodes w i) \<noteq> []" and "n \<le> MAX_DATA_BLOCKS"
  shows "open_or_create E path key n w = open_existing E path key (os_tick (os_tick w))"
proof -
  have present: "fs_len E path w' = (Inr (length (content (inodes w' i))), os_tick w')" "path_exists E path w' = (True, os_tick w')"
    if "paths w' path = Some i" for w'
    using assms(1,2) that by (simp_all add: path_exists_def fs_len_def os_call_reliable io_bind_def lookup_path_def os_tick_def)
  have n: "\<not> n > MAX_DATA_BLOCKS" using assms(5) by (simp only: not_less)
  have "paths (os_tick w) path = Some i" using assms(3) by (simp add: os_tick_def)
  from present(1) [OF assms(3)] present(2) [OF this] n assms(4) show ?thesis
    by (simp add: open_or_create_def del: layout_values)
qed



end
