(* ===== verification/Volume_Refine.thy ===== *)
theory Volume_Refine
  imports Volume_Persist
begin

text \<open>
  The container of \<^verbatim>\<open>virtual_volume.rs\<close> as a block store: a map from data blocks to their plaintexts and a set of free blocks.
  Reading, writing, allocating, reserving, freeing and reopening the encrypted file answer as this store does, in every order.
\<close>

subsection \<open>Data refinement\<close>

fun run :: "('op \<Rightarrow> 's \<Rightarrow> 'r \<times> 's) \<Rightarrow> 'op list \<Rightarrow> 's \<Rightarrow> 'r list \<times> 's" where
  "run step [] s = ([], s)"
| "run step (op # ops) s = (let (r, s) = step op s; (rs, s) = run step ops s in (r # rs, s))"

text \<open>Every step of the implementation answers as the specification does on the abstracted state.\<close>

locale data_refinement =
  fixes cstep :: "'op \<Rightarrow> 'c \<Rightarrow> 'r \<times> 'c" and astep :: "'op \<Rightarrow> 'a \<Rightarrow> 'r \<times> 'a"
    and \<alpha> :: "'c \<Rightarrow> 'a" and invar :: "'c \<Rightarrow> bool" and ok :: "'op \<Rightarrow> bool"
  assumes step_invar: "invar c \<Longrightarrow> ok op \<Longrightarrow> invar (snd (cstep op c))"
    and step_refines: "invar c \<Longrightarrow> ok op \<Longrightarrow> astep op (\<alpha> c) = apsnd \<alpha> (cstep op c)"
begin

lemma run_refines:
  "invar c \<Longrightarrow> list_all ok ops \<Longrightarrow> run astep ops (\<alpha> c) = apsnd \<alpha> (run cstep ops c) \<and> invar (snd (run cstep ops c))"
proof (induction ops arbitrary: c)
  case (Cons op ops)
  obtain r c' where c': "cstep op c = (r, c')" by force
  have "invar c'" "astep op (\<alpha> c) = (r, \<alpha> c')"
    using step_invar [of c op] step_refines [of c op] Cons.prems c' by simp_all
  moreover obtain rs c'' where "run cstep ops c' = (rs, c'')" by force
  ultimately show ?case using Cons.IH [of c'] Cons.prems c' by simp
qed simp

end

subsection \<open>The block store\<close>

record block_store =
  cells :: "u64 \<Rightarrow> bytes option"
  free_cells :: "u64 set"
  end_cell :: u64

datatype vol_op = Op_read u64 | Op_write u64 bytes | Op_alloc | Op_reserve u64 | Op_free u64 | Op_reopen

datatype vol_answer = Got bytes | Did | Block u64 | Failed io_error

definition is_cell :: "block_store \<Rightarrow> u64 \<Rightarrow> bool" where
  "is_cell st b \<longleftrightarrow> 9 \<le> b \<and> b < end_cell st"

fun store_step :: "vol_op \<Rightarrow> block_store \<Rightarrow> vol_answer \<times> block_store" where
  "store_step (Op_read b) st =
     (if is_cell st b then (case cells st b of Some d \<Rightarrow> Got d | None \<Rightarrow> Failed InvalidData) else Failed InvalidInput, st)"
| "store_step (Op_write b d) st =
     (if is_cell st b then (Did, st\<lparr>cells := (cells st)(b \<mapsto> d)\<rparr>) else (Failed InvalidInput, st))"
| "store_step Op_alloc st =
     (if free_cells st = {} then (Failed StorageFull, st)
      else (Block (Min (free_cells st)), st\<lparr>free_cells := free_cells st - {Min (free_cells st)}\<rparr>))"
| "store_step (Op_reserve b) st =
     (if is_cell st b then (Did, st\<lparr>free_cells := free_cells st - {b}\<rparr>) else (Failed InvalidInput, st))"
| "store_step (Op_free b) st =
     (if is_cell st b \<and> b \<notin> free_cells st then (Did, st\<lparr>free_cells := insert b (free_cells st)\<rparr>)
      else (Failed InvalidInput, st))"
| "store_step Op_reopen st = (Did, st)"

subsection \<open>The container as an implementation\<close>

definition answer :: "('a \<Rightarrow> vol_answer) \<Rightarrow> io_error + 'a \<Rightarrow> vol_answer" where
  "answer f r = (case r of Inl e \<Rightarrow> Failed e | Inr x \<Rightarrow> f x)"

text \<open>\<open>Op_reopen\<close> opens the file again with its path and key, as a new process does.\<close>

fun vol_step :: "env \<Rightarrow> vol_op \<Rightarrow> virtual_volume \<times> 'w world_scheme \<Rightarrow> vol_answer \<times> virtual_volume \<times> 'w world_scheme" where
  "vol_step E (Op_read b) (v, w) = (let (r, w) = read_block E v b w in (answer Got r, v, w))"
| "vol_step E (Op_write b d) (v, w) = (let (r, w) = write_block E v b d w in (answer (\<lambda>_. Did) r, v, w))"
| "vol_step E Op_alloc (v, w) = apfst (answer Block) (allocate_block E v w)"
| "vol_step E (Op_reserve b) (v, w) = apfst (answer (\<lambda>_. Did)) (reserve_block E v b w)"
| "vol_step E (Op_free b) (v, w) = apfst (answer (\<lambda>_. Did)) (free_block E v b w)"
| "vol_step E Op_reopen (v, w) =
     (case open_existing E (vv_path v) (vv_master_key v) w of
        (Inl e, w) \<Rightarrow> (Failed e, v, w) | (Inr v, w) \<Rightarrow> (Did, v, w))"

definition vol_store :: "env \<Rightarrow> virtual_volume \<times> 'w world_scheme \<Rightarrow> block_store" where
  "vol_store E = (\<lambda>(v, w). \<lparr>cells = (\<lambda>b. if 9 \<le> b \<and> b < vv_total_blocks v
       then plaintext_of E (vv_master_key v) b (stored_block v b w) else None),
     free_cells = vol_free v, end_cell = vv_total_blocks v\<rparr>)"

definition vol_inv :: "env \<Rightarrow> virtual_volume \<times> 'w world_scheme \<Rightarrow> bool" where
  "vol_inv E = (\<lambda>(v, w). os_reliable E \<and> chacha_laws E \<and> hash_sizes E \<and> vol_open v w \<and> on_disk E v (file_of (vv_file v) w))"

fun op_ok :: "vol_op \<Rightarrow> bool" where
  "op_ok (Op_write b d) \<longleftrightarrow> length d = PAYLOAD_SIZE"
| "op_ok _ \<longleftrightarrow> True"

lemma is_cell_store [simp]: "is_cell (vol_store E (v, w)) b \<longleftrightarrow> 9 \<le> b \<and> b < vv_total_blocks v"
  by (simp add: is_cell_def vol_store_def)

lemma vol_store_file:
  assumes "file_of (vv_file v) w' = file_of (vv_file v) w"
  shows "vol_store E (v, w') = vol_store E (v, w)"
proof -
  have "stored_block v b w' = stored_block v b w" for b using assms by (simp add: stored_block_def)
  then show ?thesis by (simp add: vol_store_def fun_eq_iff)
qed

lemma check_fail: "\<not> (9 \<le> b \<and> b < vv_total_blocks v) \<Longrightarrow> check_data_block v b w = (Inl InvalidInput, w)"
  by (auto simp: check_data_block_def io_fail_def not_less not_le)

lemma refuses:
  assumes "\<not> (9 \<le> b \<and> b < vv_total_blocks v)"
  shows "read_block E v b w = (Inl InvalidInput, w)" "write_block E v b d w = (Inl InvalidInput, w)"
    "reserve_block E v b w = (Inl InvalidInput, v, w)" "free_block E v b w = (Inl InvalidInput, v, w)"
  by (simp_all add: read_block_def write_block_def reserve_block_def free_block_def io_bind_def check_fail [OF assms])

subsection \<open>Each operation\<close>

lemma read_refines:
  assumes "vol_inv E (v, w)"
  shows "vol_inv E (snd (vol_step E (Op_read b) (v, w))) \<and>
    store_step (Op_read b) (vol_store E (v, w)) = apsnd (vol_store E) (vol_step E (Op_read b) (v, w))"
proof (cases "9 \<le> b \<and> b < vv_total_blocks v")
  case True
  obtain w' where r: "read_block E v b w =
      (case plaintext_of E (vv_master_key v) b (stored_block v b w) of None \<Rightarrow> (Inl InvalidData, w') | Some pt \<Rightarrow> (Inr pt, w'))"
    "file_of (vv_file v) w' = file_of (vv_file v) w" "vol_open v w'"
    using assms True unfolding vol_inv_def by (auto intro: read_block_eq [of E v w b])
  have "cells (vol_store E (v, w)) b = plaintext_of E (vv_master_key v) b (stored_block v b w)"
    using True by (simp add: vol_store_def)
  then show ?thesis
    using True assms r vol_store_file [OF r(2), of E]
    by (simp add: vol_inv_def answer_def split: option.split)
qed (use assms in \<open>auto simp: refuses answer_def\<close>)

lemma on_disk_data:
  assumes "vol_wf v" and "on_disk E v c" and "36864 \<le> off" and "off + length bs \<le> length c"
  shows "on_disk E v (copy_at off bs c)"
proof -
  have "subslice 0 4096 (copy_at off bs c) = subslice 0 4096 c" "subslice 4096 36864 (copy_at off bs c) = subslice 4096 36864 c"
    using assms(3,4) by (intro subslice_copy_at_disjoint; simp)+
  with assms show ?thesis by (simp add: on_disk_def length_copy_at)
qed

lemma data_block_above: "9 \<le> (b :: u64) \<Longrightarrow> 36864 \<le> unat b * BLOCK_SIZE"
  by (simp add: BLOCK_SIZE_def word_le_nat_alt)

lemma write_refines:
  assumes "vol_inv E (v, w)" and "length d = PAYLOAD_SIZE"
  shows "vol_inv E (snd (vol_step E (Op_write b d) (v, w))) \<and>
    store_step (Op_write b d) (vol_store E (v, w)) = apsnd (vol_store E) (vol_step E (Op_write b d) (v, w))"
proof (cases "9 \<le> b \<and> b < vv_total_blocks v")
  case True
  have E: "os_reliable E" "chacha_laws E" "hash_sizes E" and v: "vol_open v w" "on_disk E v (file_of (vv_file v) w)"
    using assms(1) by (simp_all add: vol_inv_def)
  have b: "9 \<le> b" "b < vv_total_blocks v" using True by simp_all
  obtain w' raw where wr: "write_block E v b d w = (Inr (), w')" "vol_open v w'" "length raw = BLOCK_SIZE"
    "plaintext_of E (vv_master_key v) b (stored_block v b w') = Some d" "\<forall>c. c \<noteq> b \<longrightarrow> stored_block v c w' = stored_block v c w"
    "file_of (vv_file v) w' = copy_at (unat b * BLOCK_SIZE) raw (file_of (vv_file v) w)"
    by (rule write_block_stores [OF E v(1) b assms(2)])
  from wr(4,5) b have "vol_store E (v, w') = (vol_store E (v, w))\<lparr>cells := (cells (vol_store E (v, w)))(b \<mapsto> d)\<rparr>"
    by (auto simp: vol_store_def fun_eq_iff)
  moreover have "on_disk E v (file_of (vv_file v) w')"
    unfolding wr(6) using v data_block_above [OF b(1)] data_block_offset(2) [OF v(1) b] wr(3)
    by (intro on_disk_data) (simp_all add: vol_open_def)
  ultimately show ?thesis using True E wr(1,2) by (simp add: vol_inv_def answer_def)
qed (use assms in \<open>auto simp: refuses answer_def\<close>)

text \<open>Writing a changed bitmap leaves the data blocks alone.\<close>

lemma bitmap_refines:
  assumes "vol_inv E (v, w)" and "v' = v\<lparr>vv_bitmap := bits, vv_free_blocks := n\<rparr>" and "vol_wf v'"
  obtains w' where "write_bitmap E v' w = (Inr (), w')" "vol_inv E (v', w')"
    "vol_store E (v', w') = (vol_store E (v, w))\<lparr>free_cells := vol_free v'\<rparr>"
proof -
  have E: "os_reliable E" "chacha_laws E" "hash_sizes E" and v: "vol_open v w" "on_disk E v (file_of (vv_file v) w)"
    using assms(1) by (simp_all add: vol_inv_def)
  have len: "length bits = 32768" using assms(2,3) by (simp add: vol_wf_def bitmap_wf_def)
  have "vol_open v' w" using v(1) assms(2,3) by (simp add: vol_open_def)
  then obtain w' where w': "write_bitmap E v' w = (Inr (), w')" "vol_open v' w'"
    "file_of (vv_file v') w' = copy_at 4096 (vv_bitmap v') (file_of (vv_file v') w)"
    by (rule write_bitmap_ok [OF E(1)])
  have wf: "vol_wf v" using v(1) by (simp add: vol_open_def)
  have od: "on_disk E v' (file_of (vv_file v') w')"
    unfolding w'(3) using on_disk_bitmap [OF wf v(2) len, of n] by (simp add: assms(2))
  have "4096 + length bits \<le> length (file_of (vv_file v) w)" using on_disk_length [OF wf v(2)] len by simp
  then have "stored_block v' b w' = stored_block v b w" if "9 \<le> b" for b
    unfolding stored_block_def w'(3) using data_block_above [OF that] len
    by (simp add: assms(2) subslice_copy_at_disjoint)
  then have "vol_store E (v', w') = (vol_store E (v, w))\<lparr>free_cells := vol_free v'\<rparr>"
    by (auto simp: vol_store_def assms(2) fun_eq_iff)
  with w'(1,2) od E show thesis by (intro that) (simp_all add: vol_inv_def)
qed

lemma marked_refines:
  assumes "vol_inv E (v, w)" and "i < data_n v" and "bit_free (vv_bitmap v) i"
  obtains w' where "write_bitmap E (marked i v) w = (Inr (), w')" "vol_inv E (marked i v, w')"
    "vol_store E (marked i v, w') = (vol_store E (v, w))\<lparr>free_cells := vol_free v - {9 + of_nat i}\<rparr>"
proof -
  have "vol_wf v" using assms(1) by (simp add: vol_inv_def vol_open_def)
  then have wf: "vol_wf (marked i v)" and free: "vol_free (marked i v) = vol_free v - {9 + of_nat i}"
    using marked_wf assms(2,3) by simp_all
  show thesis by (rule bitmap_refines [OF assms(1) marked_def wf]) (use free in \<open>simp add: that\<close>)
qed

lemma cleared_refines:
  assumes "vol_inv E (v, w)" and "i < data_n v" and "\<not> bit_free (vv_bitmap v) i"
  obtains w' where "write_bitmap E (cleared i v) w = (Inr (), w')" "vol_inv E (cleared i v, w')"
    "vol_store E (cleared i v, w') = (vol_store E (v, w))\<lparr>free_cells := insert (9 + of_nat i) (vol_free v)\<rparr>"
proof -
  have "vol_wf v" using assms(1) by (simp add: vol_inv_def vol_open_def)
  then have wf: "vol_wf (cleared i v)" and free: "vol_free (cleared i v) = insert (9 + of_nat i) (vol_free v)"
    using cleared_wf assms(2,3) by simp_all
  show thesis by (rule bitmap_refines [OF assms(1) cleared_def wf]) (use free in \<open>simp add: that\<close>)
qed

lemma store_fields [simp]: "free_cells (vol_store E (v, w)) = vol_free v" "end_cell (vol_store E (v, w)) = vv_total_blocks v"
  by (simp_all add: vol_store_def)

lemma alloc_refines:
  assumes "vol_inv E (v, w)"
  shows "vol_inv E (snd (vol_step E Op_alloc (v, w))) \<and>
    store_step Op_alloc (vol_store E (v, w)) = apsnd (vol_store E) (vol_step E Op_alloc (v, w))"
proof -
  have wf: "vol_wf v" using assms by (simp add: vol_inv_def vol_open_def)
  show ?thesis
  proof (cases rule: allocate_block_cases [OF wf, of E w, case_names full found])
    case full
    then show ?thesis using assms by (simp add: answer_def)
  next
    case (found i)
    obtain w' where w': "write_bitmap E (marked i v) w = (Inr (), w')" "vol_inv E (marked i v, w')"
      "vol_store E (marked i v, w') = (vol_store E (v, w))\<lparr>free_cells := vol_free v - {9 + of_nat i}\<rparr>"
      by (rule marked_refines [OF assms found(1,2)])
    have in_free: "9 + of_nat i \<in> vol_free v" using found(1,2) unfolding vol_free_image [OF wf] unmarked_free by blast
    have low: "9 + of_nat i \<le> c" if "c \<in> vol_free v" for c
    proof -
      from that obtain j where "j < data_n v" "bit_free (vv_bitmap v) j" "c = 9 + of_nat j"
        by (auto simp: vol_free_image [OF wf] unmarked_free)
      with found(3) show ?thesis by (metis block_mono [OF wf] not_le)
    qed
    have "Min (vol_free v) = 9 + of_nat i" using in_free low by (intro Min_eqI) simp_all
    moreover have "vol_free v \<noteq> {}" using in_free by blast
    ultimately show ?thesis using w' found(4) by (simp add: answer_def)
  qed
qed

lemma reserve_refines:
  assumes "vol_inv E (v, w)"
  shows "vol_inv E (snd (vol_step E (Op_reserve b) (v, w))) \<and>
    store_step (Op_reserve b) (vol_store E (v, w)) = apsnd (vol_store E) (vol_step E (Op_reserve b) (v, w))"
proof -
  have wf: "vol_wf v" using assms by (simp add: vol_inv_def vol_open_def)
  show ?thesis
  proof (cases rule: reserve_block_cases [OF wf, of E b w, case_names same marks])
    case (same r)
    have "b \<notin> vol_free v \<Longrightarrow> (vol_store E (v, w))\<lparr>free_cells := vol_free v - {b}\<rparr> = vol_store E (v, w)"
      by (simp add: vol_store_def)
    with same assms show ?thesis by (cases "9 \<le> b \<and> b < vv_total_blocks v") (auto simp: answer_def refuses)
  next
    case (marks i r w')
    obtain w'' where "write_bitmap E (marked i v) w = (Inr (), w'')" "vol_inv E (marked i v, w'')"
      "vol_store E (marked i v, w'') = (vol_store E (v, w))\<lparr>free_cells := vol_free v - {9 + of_nat i}\<rparr>"
      by (rule marked_refines [OF assms marks(2,3)])
    with marks block_in_range [OF wf, of b] show ?thesis by (auto simp: answer_def)
  qed
qed

lemma free_refines:
  assumes "vol_inv E (v, w)"
  shows "vol_inv E (snd (vol_step E (Op_free b) (v, w))) \<and>
    store_step (Op_free b) (vol_store E (v, w)) = apsnd (vol_store E) (vol_step E (Op_free b) (v, w))"
proof -
  have wf: "vol_wf v" using assms by (simp add: vol_inv_def vol_open_def)
  show ?thesis
  proof (cases rule: free_block_cases [OF wf, of E b w, case_names same clears])
    case same
    then show ?thesis using assms by (auto simp: answer_def)
  next
    case (clears i r w')
    obtain w'' where "write_bitmap E (cleared i v) w = (Inr (), w'')" "vol_inv E (cleared i v, w'')"
      "vol_store E (cleared i v, w'') = (vol_store E (v, w))\<lparr>free_cells := insert (9 + of_nat i) (vol_free v)\<rparr>"
      by (rule cleared_refines [OF assms clears(2,3)])
    moreover have "b \<notin> vol_free v" using clears(1-3) block_index [OF wf] by (simp add: vol_free_def)
    ultimately show ?thesis using clears block_in_range [OF wf, of b] by (auto simp: answer_def)
  qed
qed

text \<open>Opening the file, in any state that has it at the path, gives the same store.\<close>

lemma open_refines:
  assumes "vol_inv E (v, w)" and "0 \<notin> set (vv_path v)" and "paths t (vv_path v) = Some i"
    and "content (inodes t i) = file_of (vv_file v) w"
  obtains fd t' where "open_existing E (vv_path v) (vv_master_key v) t = (Inr (v\<lparr>vv_file := fd, vv_bitmap_write_count := 0\<rparr>), t')"
    "vol_inv E (v\<lparr>vv_file := fd, vv_bitmap_write_count := 0\<rparr>, t')"
    "vol_store E (v\<lparr>vv_file := fd, vv_bitmap_write_count := 0\<rparr>, t') = vol_store E (v, w)"
proof -
  have E: "os_reliable E" "chacha_laws E" "hash_sizes E" and v: "vol_open v w" "on_disk E v (file_of (vv_file v) w)"
    using assms(1) by (simp_all add: vol_inv_def)
  have wf: "vol_wf v" using v(1) by (simp add: vol_open_def)
  have od: "on_disk E v (content (inodes t i))" using v(2) assms(4) by simp
  obtain fd t' where o: "open_existing E (vv_path v) (vv_master_key v) t =
      (Inr (v\<lparr>vv_file := fd, vv_bitmap_write_count := 0\<rparr>), t')"
    "linked (vv_path v) fd t'" "file_of fd t' = file_of (vv_file v) w"
    by (rule open_existing_ok [OF E(1) assms(2,3) wf od, of "vv_master_key v"]) (simp add: that assms(4))
  let ?v = "v\<lparr>vv_file := fd, vv_bitmap_write_count := 0\<rparr>"
  have "vol_inv E (?v, t')"
    using E v o(2,3) by (simp add: vol_inv_def vol_open_def on_disk_def vol_wf_def data_n_def)
  moreover have "stored_block ?v b t' = stored_block v b w" for b using o(3) by (simp add: stored_block_def)
  then have "vol_store E (?v, t') = vol_store E (v, w)"
    by (auto simp: vol_store_def vol_free_def fun_eq_iff)
  ultimately show thesis using o(1) by (intro that)
qed

lemma open_again:
  assumes inv: "vol_inv E (v, w)" and i: "paths t (vv_path v) = Some i" "content (inodes t i) = file_of (vv_file v) w"
    and m: "m \<le> MAX_DATA_BLOCKS"
  shows "\<exists>fd t'. open_or_create E (vv_path v) (vv_master_key v) m t = (Inr (v\<lparr>vv_file := fd, vv_bitmap_write_count := 0\<rparr>), t') \<and>
      vol_inv E (v\<lparr>vv_file := fd, vv_bitmap_write_count := 0\<rparr>, t') \<and>
      vol_store E (v\<lparr>vv_file := fd, vv_bitmap_write_count := 0\<rparr>, t') = vol_store E (v, w)"
    and "sha256 E key \<noteq> sha256 E (vv_master_key v) \<Longrightarrow>
      \<exists>t'. open_or_create E (vv_path v) key m t = (Inl PermissionDenied, t')"
proof -
  have E: "os_reliable E" and z: "0 \<notin> set (vv_path v)" and wf: "vol_wf v" and od: "on_disk E v (file_of (vv_file v) w)"
    using inv by (simp_all add: vol_inv_def vol_open_def linked_def)
  have "content (inodes t i) \<noteq> []" using on_disk_length [OF wf od] i(2) by auto
  then have op: "open_or_create E (vv_path v) k m t = open_existing E (vv_path v) k (os_tick (os_tick t))" for k
    by (rule open_or_create_present [OF E z i(1) _ m])
  have i': "paths (os_tick (os_tick t)) (vv_path v) = Some i" "content (inodes (os_tick (os_tick t)) i) = file_of (vv_file v) w"
    using i by (simp_all add: os_tick_def)
  show "\<exists>fd t'. open_or_create E (vv_path v) (vv_master_key v) m t = (Inr (v\<lparr>vv_file := fd, vv_bitmap_write_count := 0\<rparr>), t') \<and>
      vol_inv E (v\<lparr>vv_file := fd, vv_bitmap_write_count := 0\<rparr>, t') \<and>
      vol_store E (v\<lparr>vv_file := fd, vv_bitmap_write_count := 0\<rparr>, t') = vol_store E (v, w)"
    unfolding op by (rule open_refines [OF inv z i']) blast
  have od': "on_disk E v (content (inodes (os_tick (os_tick t)) i))" using od i'(2) by simp
  show "\<exists>t'. open_or_create E (vv_path v) key m t = (Inl PermissionDenied, t')"
    if ne: "sha256 E key \<noteq> sha256 E (vv_master_key v)"
    unfolding op by (rule open_existing_ok [OF E z i'(1) wf od', of key]) (simp add: ne)
qed

lemma reopen_refines:
  assumes "vol_inv E (v, w)"
  shows "vol_inv E (snd (vol_step E Op_reopen (v, w))) \<and>
    store_step Op_reopen (vol_store E (v, w)) = apsnd (vol_store E) (vol_step E Op_reopen (v, w))"
proof -
  have "0 \<notin> set (vv_path v)" "paths w (vv_path v) = Some (fd_ino (fds w (vv_file v)))"
    "content (inodes w (fd_ino (fds w (vv_file v)))) = file_of (vv_file v) w"
    using assms by (simp_all add: vol_inv_def vol_open_def linked_def file_of_def)
  then show ?thesis by (rule open_refines [OF assms]) simp
qed

subsection \<open>Single operations\<close>

lemma store_same_end:
  assumes "vol_store E (v', w') = (vol_store E (v, w))\<lparr>free_cells := F\<rparr>"
  shows "vol_free v' = F" "vv_total_blocks v' = vv_total_blocks v" "cells (vol_store E (v', w')) = cells (vol_store E (v, w))"
  using arg_cong [OF assms, of free_cells] arg_cong [OF assms, of end_cell] arg_cong [OF assms, of cells] by simp_all

lemma alloc_step:
  assumes "vol_inv E (v, w)" and "vol_free v \<noteq> {}"
  obtains v' w' where "allocate_block E v w = (Inr (Min (vol_free v)), v', w')" "vol_inv E (v', w')"
    "vol_free v' = vol_free v - {Min (vol_free v)}" "vv_total_blocks v' = vv_total_blocks v"
    "cells (vol_store E (v', w')) = cells (vol_store E (v, w))"
proof -
  obtain r v' w' where a: "allocate_block E v w = (r, v', w')" by (cases "allocate_block E v w") auto
  from alloc_refines [OF assms(1)] assms(2) have *: "vol_inv E (v', w')" "answer Block r = Block (Min (vol_free v))"
    "vol_store E (v', w') = (vol_store E (v, w))\<lparr>free_cells := vol_free v - {Min (vol_free v)}\<rparr>"
    by (simp_all add: a)
  from *(2) have "r = Inr (Min (vol_free v))" by (cases r) (simp_all add: answer_def)
  with a *(1) store_same_end [OF *(3)] show thesis by (intro that [of v' w']) simp_all
qed

lemma alloc_full:
  assumes "vol_inv E (v, w)" and "vol_free v = {}"
  shows "allocate_block E v w = (Inl StorageFull, v, w)"
  using assms by (simp add: allocate_block_def vol_free_empty vol_inv_def vol_open_def)

lemma free_step:
  assumes "vol_inv E (v, w)" and "b \<notin> vol_free v" and "9 \<le> b" and "b < vv_total_blocks v"
  obtains v' w' where "free_block E v b w = (Inr (), v', w')" "vol_inv E (v', w')" "vol_free v' = insert b (vol_free v)"
proof -
  obtain r v' w' where a: "free_block E v b w = (r, v', w')" by (cases "free_block E v b w") auto
  from free_refines [OF assms(1), of b] assms(2-4) have *: "vol_inv E (v', w')" "answer (\<lambda>_. Did) r = Did"
    "vol_store E (v', w') = (vol_store E (v, w))\<lparr>free_cells := insert b (vol_free v)\<rparr>"
    by (simp_all add: a)
  from *(2) have "r = Inr ()" by (cases r) (simp_all add: answer_def)
  with a *(1) store_same_end [OF *(3)] show thesis by (intro that [of v' w']) simp_all
qed

lemma write_step:
  assumes "vol_inv E (v, w)" and "9 \<le> b" and "b < vv_total_blocks v" and "length d = PAYLOAD_SIZE"
  obtains w' where "write_block E v b d w = (Inr (), w')" "vol_inv E (v, w')"
    "cells (vol_store E (v, w')) = (cells (vol_store E (v, w)))(b \<mapsto> d)"
proof -
  obtain r w' where a: "write_block E v b d w = (r, w')" by force
  from write_refines [OF assms(1,4), of b] assms(2,3) have *: "vol_inv E (v, w')" "answer (\<lambda>_. Did) r = Did"
    "vol_store E (v, w') = (vol_store E (v, w))\<lparr>cells := (cells (vol_store E (v, w)))(b \<mapsto> d)\<rparr>"
    by (simp_all add: a)
  from *(2) have "r = Inr ()" by (cases r) (simp_all add: answer_def)
  moreover have "cells (vol_store E (v, w')) = (cells (vol_store E (v, w)))(b \<mapsto> d)" by (subst *(3)) simp
  ultimately show thesis using a *(1) by (intro that) simp_all
qed

lemma read_step:
  assumes "vol_inv E (v, w)" and "cells (vol_store E (v, w)) b = Some d"
  obtains w' where "read_block E v b w = (Inr d, w')" "vol_inv E (v, w')" "vol_store E (v, w') = vol_store E (v, w)"
proof -
  obtain r w' where a: "read_block E v b w = (r, w')" by force
  have "9 \<le> b \<and> b < vv_total_blocks v" using assms(2) by (simp add: vol_store_def split: if_splits)
  with read_refines [OF assms(1), of b] assms(2) have *: "vol_inv E (v, w')" "answer Got r = Got d"
    "vol_store E (v, w') = vol_store E (v, w)"
    by (simp_all add: a)
  from *(2) have "r = Inr d" by (cases r) (simp_all add: answer_def)
  with a *(1,3) show thesis by (intro that [of w']) simp_all
qed

lemmas vol_refines = read_refines write_refines alloc_refines reserve_refines free_refines reopen_refines

interpretation vol: data_refinement "vol_step E" store_step "vol_store E" "vol_inv E" op_ok for E
proof unfold_locales
  fix c :: "virtual_volume \<times> 'a world_scheme" and op
  assume "vol_inv E c" and "op_ok op"
  then have *: "vol_inv E (snd (vol_step E op c)) \<and> store_step op (vol_store E c) = apsnd (vol_store E) (vol_step E op c)"
    by (cases c; cases op) (simp_all only: op_ok.simps vol_refines)
  then show "vol_inv E (snd (vol_step E op c))" by blast
  from * show "store_step op (vol_store E c) = apsnd (vol_store E) (vol_step E op c)" by blast
qed

text \<open>C1: The encrypted container is a block store.  On an open volume whose file describes it, with a working operating system,
  any sequence of reads, writes of 4068 bytes, allocations, reservations, releases and reopenings gives exactly the answers, and ends
  in exactly the contents and free blocks, of a map from data blocks to plaintexts with a set of free blocks; the volume stays open.\<close>

theorem volume_refines_block_store:
  assumes "os_reliable E" and "chacha_laws E" and "hash_sizes E" and "vol_open v w" and "on_disk E v (file_of (vv_file v) w)"
    and "list_all op_ok ops" and "run (vol_step E) ops (v, w) = (answers, v', w')"
  shows "run store_step ops (vol_store E (v, w)) = (answers, vol_store E (v', w')) \<and>
    vol_open v' w' \<and> on_disk E v' (file_of (vv_file v') w')"
proof -
  have "vol_inv E (v, w)" using assms(1-5) by (simp add: vol_inv_def)
  from vol.run_refines [OF this assms(6)] assms(7) show ?thesis by (simp add: vol_inv_def)
qed

theorem volume_refines_block_store_witness:
  "fst (run (vol_step demo_env) [Op_alloc, Op_write 9 (replicate 4068 7), Op_reopen, Op_read 9, Op_free 9, Op_free 9]
     (demo_volume, demo_vault)) = [Block 9, Did, Did, Got (replicate 4068 7), Did, Failed InvalidInput]"
proof -
  let ?ops = "[Op_alloc, Op_write 9 (replicate 4068 7), Op_reopen, Op_read 9, Op_free 9, Op_free 9]"
  obtain answers v' w' where r: "run (vol_step demo_env) ?ops (demo_volume, demo_vault) = (answers, v', w')"
    by (cases "run (vol_step demo_env) ?ops (demo_volume, demo_vault)") auto
  have free: "vol_free demo_volume = (\<lambda>i. 9 + of_nat i) ` {..<4}"
    unfolding vol_free_image [OF demo_volume_wf] by (simp add: demo_volume_def data_n_def unmarked_zeros)
  have "(\<lambda>i. 9 + of_nat i :: u64) ` {..<4} = {9, 10, 11, 12}" by (simp add: lessThan_nat_numeral lessThan_Suc insert_commute)
  with free have "vol_free demo_volume = {9, 10, 11, 12}" by simp
  then have "fst (run store_step ?ops (vol_store demo_env (demo_volume, demo_vault))) =
      [Block 9, Did, Did, Got (replicate 4068 7), Did, Failed InvalidInput]"
    by (simp add: vol_store_def is_cell_def demo_volume_def)
  moreover have "run store_step ?ops (vol_store demo_env (demo_volume, demo_vault)) = (answers, vol_store demo_env (v', w'))"
    using volume_refines_block_store [OF demo_os_reliable demo_chacha_laws demo_hash_sizes demo_vault_open demo_vault_on_disk _ r]
    by (simp add: PAYLOAD_SIZE_def BLOCK_SIZE_def)
  ultimately show ?thesis by (simp only: r fst_conv)
qed

end
