(* ===== verification/Volume_Tests.thy ===== *)
theory Volume_Tests
  imports Volume_Refine
begin

text \<open>
  The unit tests of \<^verbatim>\<open>virtual_volume.rs\<close>.  A test takes the path of its temporary file and the state of the system; a failing
  \<^verbatim>\<open>assert!\<close> and an \<^verbatim>\<open>unwrap\<close> of an error are \<open>Panic\<close>.  The tests pass in every state and for every environment with the stated
  laws, not only on the machine that runs them.
\<close>

definition unwrap :: "io_error + 'a \<Rightarrow> ('a \<Rightarrow> 'b outcome) \<Rightarrow> 'b outcome" where
  "unwrap r f = (case r of Inl _ \<Rightarrow> Panic | Inr x \<Rightarrow> f x)"

definition assert_that :: "bool \<Rightarrow> 'b outcome \<Rightarrow> 'b outcome" where
  "assert_that b k = (if b then k else Panic)"

lemma test_simps [simp]: "unwrap (Inr x) f = f x" "assert_that True k = k"
  by (simp_all add: unwrap_def assert_that_def)

definition dummy_master_key :: bytes where
  "dummy_master_key = (let k = zeros 32; k = k[0 := 0x42] in k[31 := 0xFF])"

definition bad_key :: bytes where
  "bad_key = dummy_master_key[0 := dummy_master_key ! 0 XOR 1]"

definition create_and_reopen_vault :: "env \<Rightarrow> bytes \<Rightarrow> 'w world_scheme \<Rightarrow> 'w world_scheme outcome" where
  "create_and_reopen_vault E path w =
     (let w = snd (remove_file E path w); mk = dummy_master_key
      in case open_or_create E path mk 16 w of (r, w) \<Rightarrow> unwrap r (\<lambda>v.
           assert_that (data_blocks v = 16)
           (assert_that (vv_free_blocks v = 16)
           (assert_that (total_blocks v = DATA_START_BLOCK + 16)
           (let w = snd (volume_drop E v w)
            in case open_or_create E path mk 0 w of (r, w) \<Rightarrow> unwrap r (\<lambda>v.
                 assert_that (data_blocks v = 16)
                 (let w = snd (volume_drop E v w)
                  in case open_or_create E path bad_key 0 w of (r, w) \<Rightarrow>
                       assert_that (case r of Inl _ \<Rightarrow> True | Inr _ \<Rightarrow> False)
                       (Done (snd (remove_file E path w))))))))))"

definition write_and_read_block :: "env \<Rightarrow> bytes \<Rightarrow> 'w world_scheme \<Rightarrow> 'w world_scheme outcome" where
  "write_and_read_block E path w =
     (let w = snd (remove_file E path w); mk = dummy_master_key
      in case open_or_create E path mk 16 w of (r, w) \<Rightarrow> unwrap r (\<lambda>v.
         case allocate_block E v w of (r, v, w) \<Rightarrow> unwrap r (\<lambda>blk.
         let payload = replicate PAYLOAD_SIZE 0xAB
         in case write_block E v blk payload w of (r, w) \<Rightarrow> unwrap r (\<lambda>_.
            case read_block E v blk w of (r, w) \<Rightarrow> unwrap r (\<lambda>out.
            assert_that (out = payload)
            (Done (snd (remove_file E path w))))))))"

definition allocate_exhausts_and_frees :: "env \<Rightarrow> bytes \<Rightarrow> 'w world_scheme \<Rightarrow> 'w world_scheme outcome" where
  "allocate_exhausts_and_frees E path w =
     (let w = snd (remove_file E path w); mk = dummy_master_key
      in case open_or_create E path mk 4 w of (r, w) \<Rightarrow> unwrap r (\<lambda>v.
         case allocate_block E v w of (r, v, w) \<Rightarrow> unwrap r (\<lambda>_.
         case allocate_block E v w of (r, v, w) \<Rightarrow> unwrap r (\<lambda>b1.
         case allocate_block E v w of (r, v, w) \<Rightarrow> unwrap r (\<lambda>_.
         case allocate_block E v w of (r, v, w) \<Rightarrow> unwrap r (\<lambda>_.
         assert_that (vv_free_blocks v = 0)
         (case allocate_block E v w of (r, v, w) \<Rightarrow>
          assert_that (case r of Inl _ \<Rightarrow> True | Inr _ \<Rightarrow> False)
          (case free_block E v b1 w of (r, v, w) \<Rightarrow> unwrap r (\<lambda>_.
           assert_that (vv_free_blocks v = 1)
           (case allocate_block E v w of (r, v, w) \<Rightarrow> unwrap r (\<lambda>b1_again.
            assert_that (b1_again = b1)
            (Done (snd (remove_file E path w))))))))))))))"

definition pattern :: "u8 \<Rightarrow> bytes" where
  "pattern i = (let payload = zeros PAYLOAD_SIZE; payload = payload[0 := i] in payload[PAYLOAD_SIZE - 1 := i * 17])"

fun fill_blocks ::
  "env \<Rightarrow> u8 list \<Rightarrow> virtual_volume \<Rightarrow> 'w world_scheme \<Rightarrow> (u64 \<times> bytes) list \<Rightarrow>
   ((u64 \<times> bytes) list \<times> virtual_volume \<times> 'w world_scheme) outcome" where
  "fill_blocks E [] v w allocated = Done (allocated, v, w)"
| "fill_blocks E (i # is) v w allocated =
     (case allocate_block E v w of (r, v, w) \<Rightarrow> unwrap r (\<lambda>blk.
      case write_block E v blk (pattern i) w of (r, w) \<Rightarrow> unwrap r (\<lambda>_.
      fill_blocks E is v w (allocated @ [(blk, pattern i)]))))"

fun verify_blocks :: "env \<Rightarrow> virtual_volume \<Rightarrow> (u64 \<times> bytes) list \<Rightarrow> 'w world_scheme \<Rightarrow> 'w world_scheme outcome" where
  "verify_blocks E v [] w = Done w"
| "verify_blocks E v ((blk, expected) # rest) w =
     (case read_block E v blk w of (r, w) \<Rightarrow> unwrap r (\<lambda>out. assert_that (out = expected) (verify_blocks E v rest w)))"

definition block_write_then_reread_roundtrip :: "env \<Rightarrow> bytes \<Rightarrow> 'w world_scheme \<Rightarrow> 'w world_scheme outcome" where
  "block_write_then_reread_roundtrip E path w =
     (let w = snd (remove_file E path w); mk = dummy_master_key
      in case open_or_create E path mk 8 w of (r, w) \<Rightarrow> unwrap r (\<lambda>v.
         case fill_blocks E [0, 1, 2, 3, 4, 5, 6, 7] v w [] of
           Panic \<Rightarrow> Panic
         | Done (allocated, v, w) \<Rightarrow>
             (case verify_blocks E v allocated w of Panic \<Rightarrow> Panic | Done w \<Rightarrow> Done (snd (remove_file E path w)))))"

subsection \<open>They pass\<close>

lemma removed: "os_reliable E \<Longrightarrow> 0 \<notin> set path \<Longrightarrow> paths (snd (remove_file E path w)) path = None"
  by (simp add: remove_file_def os_call_reliable io_bind_def lookup_path_def os_tick_def split: option.split)

text \<open>Every test begins with a fresh container.\<close>

lemma fresh_volume:
  assumes "os_reliable E" and "chacha_laws E" and "hash_sizes E" and "0 \<notin> set path" and "n \<le> MAX_DATA_BLOCKS"
  obtains fd w' where "open_or_create E path key n (snd (remove_file E path w)) = (Inr (created fd path key n), w')"
    "vol_inv E (created fd path key n, w')"
proof -
  let ?w = "snd (remove_file E path w)"
  have none: "paths ?w path = None" by (rule removed [OF assms(1,4)])
  then have "paths (os_tick (os_tick (os_tick ?w))) path = None" by (simp add: os_tick_def)
  then obtain fd w' where "create_new E path key n (os_tick (os_tick (os_tick ?w))) = (Inr (created fd path key n), w')"
    "vol_open (created fd path key n) w'" "on_disk E (created fd path key n) (file_of fd w')"
    by (rule create_new_ok [OF assms(1,3,4) _ assms(5)])
  then show thesis
    using assms(1-3) by (intro that [of fd w']) (simp_all add: open_or_create_absent [OF assms(1) none assms(5)] vol_inv_def created_def)
qed

text \<open>Closing and opening again.\<close>

lemma drop_link:
  assumes "vol_inv E (v, w)"
  obtains i where "paths (snd (volume_drop E v w)) (vv_path v) = Some i"
    "content (inodes (snd (volume_drop E v w)) i) = file_of (vv_file v) w"
  using assms
  by (auto simp: volume_drop_def sync_all_def os_call_reliable upd_inode_def os_tick_def vol_inv_def vol_open_def linked_def file_of_def)

lemma create_and_reopen_vault_passes:
  assumes "os_reliable E" and "chacha_laws E" and "hash_sizes E" and "0 \<notin> set path"
    and "sha256 E bad_key \<noteq> sha256 E dummy_master_key"
  shows "create_and_reopen_vault E path w \<noteq> Panic"
proof -
  obtain fd w1 where 1: "open_or_create E path dummy_master_key 16 (snd (remove_file E path w)) =
      (Inr (created fd path dummy_master_key 16), w1)" "vol_inv E (created fd path dummy_master_key 16, w1)"
    by (rule fresh_volume [OF assms(1-4), of 16 dummy_master_key w]) simp_all
  let ?v = "created fd path dummy_master_key 16"
  have v: "vv_path ?v = path" "vv_master_key ?v = dummy_master_key" "vv_total_blocks ?v = 25" "vv_free_blocks ?v = 16"
    by (simp_all add: created_def)
  have zero: "(0 :: u64) \<le> MAX_DATA_BLOCKS" by simp
  obtain i where i: "paths (snd (volume_drop E ?v w1)) (vv_path ?v) = Some i"
    "content (inodes (snd (volume_drop E ?v w1)) i) = file_of (vv_file ?v) w1" by (rule drop_link [OF 1(2)])
  obtain fd2 w2 where 2: "open_or_create E path dummy_master_key 0 (snd (volume_drop E ?v w1)) =
      (Inr (?v\<lparr>vv_file := fd2, vv_bitmap_write_count := 0\<rparr>), w2)" "vol_inv E (?v\<lparr>vv_file := fd2, vv_bitmap_write_count := 0\<rparr>, w2)"
    using open_again(1) [OF 1(2) i zero] v by metis
  let ?v2 = "?v\<lparr>vv_file := fd2, vv_bitmap_write_count := 0\<rparr>"
  have v2: "vv_path ?v2 = path" "vv_master_key ?v2 = dummy_master_key" using v(1,2) by simp_all
  obtain j where j: "paths (snd (volume_drop E ?v2 w2)) (vv_path ?v2) = Some j"
    "content (inodes (snd (volume_drop E ?v2 w2)) j) = file_of (vv_file ?v2) w2" by (rule drop_link [OF 2(2)])
  obtain w3 where 3: "open_or_create E path bad_key 0 (snd (volume_drop E ?v2 w2)) = (Inl PermissionDenied, w3)"
    using open_again(2) [OF 2(2) j zero, of bad_key] assms(5) v2 by metis
  show ?thesis
    by (simp add: create_and_reopen_vault_def 1(1) 2(1) 3 data_blocks_def total_blocks_def v)
qed

lemma write_and_read_block_passes:
  assumes "os_reliable E" and "chacha_laws E" and "hash_sizes E" and "0 \<notin> set path"
  shows "write_and_read_block E path w \<noteq> Panic"
proof -
  obtain fd w1 where 1: "open_or_create E path dummy_master_key 16 (snd (remove_file E path w)) =
      (Inr (created fd path dummy_master_key 16), w1)" "vol_inv E (created fd path dummy_master_key 16, w1)"
    by (rule fresh_volume [OF assms, of 16 dummy_master_key w]) simp_all
  let ?v = "created fd path dummy_master_key 16"
  have ne: "vol_free ?v \<noteq> {}" by (simp add: created_free lessThan_empty_iff)
  obtain v2 w2 where 2: "allocate_block E ?v w1 = (Inr (Min (vol_free ?v)), v2, w2)" "vol_inv E (v2, w2)"
    "vv_total_blocks v2 = vv_total_blocks ?v"
    by (rule alloc_step [OF 1(2) ne])
  have "Min (vol_free ?v) \<in> vol_free ?v" using ne by simp
  with 2(3) have b: "9 \<le> Min (vol_free ?v)" "Min (vol_free ?v) < vv_total_blocks v2" by (simp_all add: vol_free_def)
  obtain w3 where 3: "write_block E v2 (Min (vol_free ?v)) (replicate PAYLOAD_SIZE 0xAB) w2 = (Inr (), w3)" "vol_inv E (v2, w3)"
    "cells (vol_store E (v2, w3)) = (cells (vol_store E (v2, w2)))(Min (vol_free ?v) \<mapsto> replicate PAYLOAD_SIZE 0xAB)"
    by (rule write_step [OF 2(2) b, of "replicate PAYLOAD_SIZE 0xAB"]) simp_all
  obtain w4 where 4: "read_block E v2 (Min (vol_free ?v)) w3 = (Inr (replicate PAYLOAD_SIZE 0xAB), w4)"
    by (rule read_step [OF 3(2), of "Min (vol_free ?v)" "replicate PAYLOAD_SIZE 0xAB"]) (simp_all add: 3(3))
  show ?thesis by (simp add: write_and_read_block_def 1(1) 2(1) 3(1) 4)
qed

lemma free_count: "vol_inv E (v, w) \<Longrightarrow> vv_free_blocks v = of_nat (card (vol_free v))"
  by (simp add: vol_inv_def vol_open_def free_blocks_card)

lemma allocate_exhausts_and_frees_passes:
  assumes "os_reliable E" and "chacha_laws E" and "hash_sizes E" and "0 \<notin> set path"
  shows "allocate_exhausts_and_frees E path w \<noteq> Panic"
proof -
  obtain fd w0 where 0: "open_or_create E path dummy_master_key 4 (snd (remove_file E path w)) =
      (Inr (created fd path dummy_master_key 4), w0)" "vol_inv E (created fd path dummy_master_key 4, w0)"
    by (rule fresh_volume [OF assms, of 4 dummy_master_key w]) simp_all
  let ?v = "created fd path dummy_master_key 4"
  have f: "vol_free ?v = {9, 10, 11, 12}"
    by (simp add: created_free lessThan_nat_numeral lessThan_Suc insert_commute)
  have t: "vv_total_blocks ?v = 13" by (simp add: created_def)
  obtain v1 w1 where 1: "allocate_block E ?v w0 = (Inr 9, v1, w1)" "vol_inv E (v1, w1)" "vol_free v1 = {10, 11, 12}" "vv_total_blocks v1 = 13"
    by (rule alloc_step [OF 0(2)]) (simp_all add: f t)
  obtain v2 w2 where 2: "allocate_block E v1 w1 = (Inr 10, v2, w2)" "vol_inv E (v2, w2)" "vol_free v2 = {11, 12}" "vv_total_blocks v2 = 13"
    by (rule alloc_step [OF 1(2)]) (simp_all add: 1)
  obtain v3 w3 where 3: "allocate_block E v2 w2 = (Inr 11, v3, w3)" "vol_inv E (v3, w3)" "vol_free v3 = {12}" "vv_total_blocks v3 = 13"
    by (rule alloc_step [OF 2(2)]) (simp_all add: 2)
  obtain v4 w4 where 4: "allocate_block E v3 w3 = (Inr 12, v4, w4)" "vol_inv E (v4, w4)" "vol_free v4 = {}" "vv_total_blocks v4 = 13"
    by (rule alloc_step [OF 3(2)]) (simp_all add: 3)
  obtain v5 w5 where 5: "free_block E v4 10 w4 = (Inr (), v5, w5)" "vol_inv E (v5, w5)" "vol_free v5 = {10}"
    by (rule free_step [OF 4(2), of 10]) (simp_all add: 4)
  obtain v6 w6 where 6: "allocate_block E v5 w5 = (Inr 10, v6, w6)"
    by (rule alloc_step [OF 5(2)]) (simp_all add: 5)
  show ?thesis
    by (simp add: allocate_exhausts_and_frees_def 0(1) 1(1) 2(1) 3(1) 4(1) 5(1) 6 free_count [OF 4(2)] free_count [OF 5(2)]
        alloc_full [OF 4(2)] 4(3) 5(3))
qed

text \<open>The two loops of the last test: blocks allocated in turn keep what was written to them.\<close>

definition all_hold :: "env \<Rightarrow> (u64 \<times> bytes) list \<Rightarrow> virtual_volume \<Rightarrow> 'w world_scheme \<Rightarrow> bool" where
  "all_hold E allocated v w \<longleftrightarrow> (\<forall>(b, d) \<in> set allocated. b \<notin> vol_free v \<and> cells (vol_store E (v, w)) b = Some d)"

lemma length_pattern [simp]: "length (pattern i) = PAYLOAD_SIZE"
  by (simp add: pattern_def)

lemma fill_blocks_ok:
  assumes "vol_inv E (v, w)" and "length is \<le> card (vol_free v)" and "all_hold E allocated v w"
  obtains allocated' v' w' where "fill_blocks E is v w allocated = Done (allocated', v', w')" "vol_inv E (v', w')"
    "all_hold E allocated' v' w'"
  using assms
proof (induction "is" arbitrary: v w allocated thesis)
  case Nil
  then show ?case by simp
next
  case (Cons i "is")
  then have ne: "vol_free v \<noteq> {}" by auto
  let ?b = "Min (vol_free v)"
  obtain v1 w1 where 1: "allocate_block E v w = (Inr ?b, v1, w1)" "vol_inv E (v1, w1)" "vol_free v1 = vol_free v - {?b}"
    "vv_total_blocks v1 = vv_total_blocks v" "cells (vol_store E (v1, w1)) = cells (vol_store E (v, w))"
    by (rule alloc_step [OF Cons.prems(2) ne])
  have b: "?b \<in> vol_free v" using ne by simp
  then have r: "9 \<le> ?b" "?b < vv_total_blocks v1" using 1(4) by (simp_all add: vol_free_def)
  obtain w2 where 2: "write_block E v1 ?b (pattern i) w1 = (Inr (), w2)" "vol_inv E (v1, w2)"
    "cells (vol_store E (v1, w2)) = (cells (vol_store E (v1, w1)))(?b \<mapsto> pattern i)"
    by (rule write_step [OF 1(2) r length_pattern])
  have "length is \<le> card (vol_free v1)" using Cons.prems(3) b by (simp add: 1(3))
  moreover have "all_hold E (allocated @ [(?b, pattern i)]) v1 w2"
    using Cons.prems(4) b 1(3,5) 2(3) by (fastforce simp: all_hold_def)
  ultimately obtain allocated' v' w' where "fill_blocks E is v1 w2 (allocated @ [(?b, pattern i)]) = Done (allocated', v', w')"
    "vol_inv E (v', w')" "all_hold E allocated' v' w'"
    using Cons.IH [OF _ 2(2)] by blast
  then show ?case using 1(1) 2(1) by (intro Cons.prems(1)) simp_all
qed

lemma verify_blocks_ok:
  "vol_inv E (v, w) \<Longrightarrow> all_hold E allocated v w \<Longrightarrow> verify_blocks E v allocated w \<noteq> Panic"
proof (induction allocated arbitrary: w)
  case (Cons p allocated)
  obtain b d where p: "p = (b, d)" by force
  have "cells (vol_store E (v, w)) b = Some d" using Cons.prems(2) by (simp add: all_hold_def p)
  then obtain w' where w': "read_block E v b w = (Inr d, w')" "vol_inv E (v, w')" "vol_store E (v, w') = vol_store E (v, w)"
    by (rule read_step [OF Cons.prems(1)])
  then have "all_hold E allocated v w'" using Cons.prems(2) by (simp add: all_hold_def)
  with Cons.IH [OF w'(2)] w'(1) show ?case by (simp add: p)
qed simp

lemma block_write_then_reread_roundtrip_passes:
  assumes "os_reliable E" and "chacha_laws E" and "hash_sizes E" and "0 \<notin> set path"
  shows "block_write_then_reread_roundtrip E path w \<noteq> Panic"
proof -
  obtain fd w0 where 0: "open_or_create E path dummy_master_key 8 (snd (remove_file E path w)) =
      (Inr (created fd path dummy_master_key 8), w0)" "vol_inv E (created fd path dummy_master_key 8, w0)"
    by (rule fresh_volume [OF assms, of 8 dummy_master_key w]) simp_all
  let ?v = "created fd path dummy_master_key 8" and ?is = "[0, 1, 2, 3, 4, 5, 6, 7] :: u8 list"
  have "card (vol_free ?v) = 8"
    by (simp add: created_free lessThan_nat_numeral lessThan_Suc)
  then have "length ?is \<le> card (vol_free ?v)" by simp
  moreover have "all_hold E [] ?v w0" by (simp add: all_hold_def)
  ultimately obtain allocated v1 w1 where 1: "fill_blocks E ?is ?v w0 [] = Done (allocated, v1, w1)" "vol_inv E (v1, w1)"
    "all_hold E allocated v1 w1" by (rule fill_blocks_ok [OF 0(2)])
  obtain w2 where "verify_blocks E v1 allocated w1 = Done w2"
    using verify_blocks_ok [OF 1(2,3)] by (cases "verify_blocks E v1 allocated w1") auto
  then show ?thesis using 0(1) 1(1) by (simp add: block_write_then_reread_roundtrip_def del: fill_blocks.simps)
qed

lemma key_facts: "length dummy_master_key = 32" "length bad_key = 32"
  by (simp_all add: dummy_master_key_def bad_key_def)

end
