(* ===== verification/Tail_Padding.thy ===== *)
theory Tail_Padding
  imports World
begin

text \<open>
  \<^verbatim>\<open>tail_padding.rs\<close>: appending and stripping random tail padding.  The padded form is
  \<open>payload | noise | u16 length of the noise\<close>.
\<close>

definition MIN_PAD :: nat where "MIN_PAD = 16"
definition MAX_PAD :: nat where "MAX_PAD = 512"

definition add_tail_padding :: "env \<Rightarrow> bytes \<Rightarrow> 'w world_scheme \<Rightarrow> bytes \<times> 'w world_scheme" where
  "add_tail_padding E payload w =
     (let (r, w) = next_u32 E w;
          l = unat r mod (MAX_PAD - MIN_PAD + 1) + MIN_PAD;
          (noise, w) = fill_bytes E l w
      in (payload @ noise @ u16_to_le (of_nat l), w))"

definition strip_tail_padding :: "bytes \<Rightarrow> bytes option" where
  "strip_tail_padding padded =
     (if length padded < 4 then None
      else
        let l = unat (u16_from_le [padded ! (length padded - 2), padded ! (length padded - 1)])
        in if l < MIN_PAD \<or> MAX_PAD < l then None
           else if length padded < 2 + l then None
           else
             let payload_end = length padded - 2 - l
             in Some (take payload_end padded))"

subsection \<open>Correctness\<close>

lemma add_tail_padding_split:
  obtains noise where "fst (add_tail_padding E payload w) = payload @ noise @ u16_to_le (of_nat (length noise))"
    and "16 \<le> length noise" and "length noise \<le> 512"
proof -
  define l where "l = unat (os_rng_u32 E (rng_draws w)) mod 497 + 16"
  have "unat (os_rng_u32 E (rng_draws w)) mod 497 < 497" by simp
  then have "16 \<le> l" "l \<le> 512" unfolding l_def by linarith+
  moreover have "fst (add_tail_padding E payload w) =
      payload @ map (os_rng_byte E (Suc (rng_draws w))) [0..<l] @ u16_to_le (of_nat l)"
    by (simp add: add_tail_padding_def next_u32_def fill_bytes_def l_def MIN_PAD_def MAX_PAD_def Let_def)
  ultimately show thesis
    by (intro that [of "map (os_rng_byte E (Suc (rng_draws w))) [0..<l]"]) simp_all
qed

text \<open>The trailer of a byte string whose last field is an encoded length.\<close>

lemma last_two_bytes:
  assumes "length t = 2"
  shows "[(p @ t) ! (length (p @ t) - 2), (p @ t) ! (length (p @ t) - 1)] = t"
proof -
  from assms obtain a b where "t = [a, b]"
    by (auto simp: length_Suc_conv numeral_2_eq_2)
  then show ?thesis by (simp add: nth_append)
qed

lemma strip_tail_padding_layout:
  assumes "16 \<le> length noise" and "length noise \<le> 512"
  shows "strip_tail_padding (payload @ noise @ u16_to_le (of_nat (length noise))) = Some payload"
proof -
  let ?t = "u16_to_le (of_nat (length noise))"
  have "unat (of_nat (length noise) :: u16) = length noise"
    using assms(2) by (simp add: unat_of_nat)
  moreover have "[(payload @ noise @ ?t) ! (length (payload @ noise @ ?t) - 2),
      (payload @ noise @ ?t) ! (length (payload @ noise @ ?t) - 1)] = ?t"
    using last_two_bytes [of ?t "payload @ noise"] by simp
  ultimately show ?thesis
    using assms by (simp add: strip_tail_padding_def MIN_PAD_def MAX_PAD_def Let_def)
qed

lemma add_tail_padding_strips:
  assumes "add_tail_padding E payload w = (padded, w')"
  shows "strip_tail_padding padded = Some payload" and "length padded \<le> length payload + 514" and "0 < length padded"
proof -
  obtain noise where "padded = payload @ noise @ u16_to_le (of_nat (length noise))" and "16 \<le> length noise" and "length noise \<le> 512"
    using add_tail_padding_split [of E payload w] assms by auto
  then show "strip_tail_padding padded = Some payload" and "length padded \<le> length payload + 514" and "0 < length padded"
    by (simp_all add: strip_tail_padding_layout)
qed

text \<open>C34: Stripping undoes padding for every payload and every outcome of the random generator, and
  padding adds between 18 and 514 bytes.\<close>

theorem strip_add_tail_padding:
  "strip_tail_padding (fst (add_tail_padding E payload w)) = Some payload \<and>
   length (fst (add_tail_padding E payload w)) \<in> {length payload + 18 .. length payload + 514}"
  by (rule add_tail_padding_split [of E payload w]) (simp add: strip_tail_padding_layout)

text \<open>Stripping accepts exactly the byte strings of the padded form: it returns \<open>payload\<close> if and
  only if the input is \<open>payload\<close> followed by 16 to 512 bytes of noise and their count as a
  little-endian u16.\<close>

lemma strip_tail_padding_iff:
  "strip_tail_padding padded = Some payload \<longleftrightarrow>
     (\<exists>noise. padded = payload @ noise @ u16_to_le (of_nat (length noise)) \<and>
              16 \<le> length noise \<and> length noise \<le> 512)"
proof
  assume strip: "strip_tail_padding padded = Some payload"
  define n t where "n = length padded - 2" and "t = drop n padded"
  from strip have len: "4 \<le> length padded"
    by (auto simp: strip_tail_padding_def split: if_splits)
  then have t2: "length t = 2" and pt: "padded = take n padded @ t" and n: "length (take n padded) = n"
    by (simp_all add: n_def t_def)
  define l where "l = unat (u16_from_le t)"
  have "[padded ! (length padded - 2), padded ! (length padded - 1)] = t"
    using last_two_bytes [OF t2, of "take n padded"] pt by simp
  with strip len have l: "16 \<le> l" "l \<le> 512" "l \<le> n" "payload = take (n - l) padded"
    by (auto simp: strip_tail_padding_def MIN_PAD_def MAX_PAD_def Let_def l_def n_def split: if_splits)
  define noise where "noise = drop (n - l) (take n padded)"
  have "length noise = l" using l n by (simp add: noise_def)
  moreover have "take n padded = payload @ noise"
    using l append_take_drop_id [of "n - l" "take n padded"] by (simp add: noise_def min_def)
  moreover have "t = u16_to_le (of_nat l)"
    using t2 by (simp add: l_def le16.enc_dec)
  ultimately show "\<exists>noise. padded = payload @ noise @ u16_to_le (of_nat (length noise)) \<and>
      16 \<le> length noise \<and> length noise \<le> 512"
    using pt l by (metis append.assoc)
next
  assume "\<exists>noise. padded = payload @ noise @ u16_to_le (of_nat (length noise)) \<and>
      16 \<le> length noise \<and> length noise \<le> 512"
  then show "strip_tail_padding padded = Some payload"
    by (auto simp: strip_tail_padding_layout)
qed

end
