(* ===== verification/Clock_Align.thy ===== *)
theory Clock_Align
  imports Prelude "HOL-Library.Signed_Division" "HOL-Library.Multiset"
begin

text \<open>
  \<^verbatim>\<open>clock_align.rs\<close>: a ring buffer of the last 16 signed counter deltas and the median taken as the
  estimated skew.  A delta is an \<^verbatim>\<open>i64\<close>; sums wrap and division rounds towards zero.  The readings
  of the monotonic clock are arguments.
\<close>

definition DELTA_HISTORY_SIZE :: nat where "DELTA_HISTORY_SIZE = 16"

record skew_ring_buffer =
  buf :: "i64 list"
  write_idx :: nat
  count :: nat

definition ring_new :: skew_ring_buffer where
  "ring_new = \<lparr>buf = replicate DELTA_HISTORY_SIZE 0, write_idx = 0, count = 0\<rparr>"

definition ring_push :: "i64 \<Rightarrow> skew_ring_buffer \<Rightarrow> skew_ring_buffer" where
  "ring_push delta r =
     (let r = r\<lparr>buf := (buf r)[write_idx r := delta]\<rparr>;
          r = r\<lparr>write_idx := (write_idx r + 1) mod DELTA_HISTORY_SIZE\<rparr>
      in if count r < DELTA_HISTORY_SIZE then r\<lparr>count := count r + 1\<rparr> else r)"

definition sorted_entries :: "skew_ring_buffer \<Rightarrow> i64 list" where
  "sorted_entries r = sort_key sint (take (count r) (buf r))"

definition i64_div :: "i64 \<Rightarrow> i64 \<Rightarrow> i64" where
  "i64_div a b = word_of_int (sint a sdiv sint b)"

definition median :: "skew_ring_buffer \<Rightarrow> i64" where
  "median r =
     (if count r = 0 then 0
      else
        let sorted = sorted_entries r;
            mid = count r div 2
        in if count r mod 2 = 1 then sorted ! mid
           else i64_div (sorted ! (mid - 1) + sorted ! mid) 2)"

record clock_globals =
  est_skew :: i64
  delta_history :: "skew_ring_buffer option"
  last_sample_ns :: "u64 option"
  anchor :: "nat option"

definition init_clock_align :: "clock_globals \<Rightarrow> clock_globals" where
  "init_clock_align s =
     (let s = (case delta_history s of None \<Rightarrow> s\<lparr>delta_history := Some ring_new\<rparr> | Some _ \<Rightarrow> s)
      in case last_sample_ns s of None \<Rightarrow> s\<lparr>last_sample_ns := Some 0\<rparr> | Some _ \<Rightarrow> s)"

text \<open>\<open>t0\<close> and \<open>t1\<close> are the two readings of \<^verbatim>\<open>Instant::now\<close>, in nanoseconds: the first becomes the
  anchor when there is none yet, the second is the one \<^verbatim>\<open>elapsed\<close> makes (it saturates at zero).\<close>

definition saturating_mul :: "u64 \<Rightarrow> u64 \<Rightarrow> u64" where
  "saturating_mul a b = (if unat a * unat b < 2 ^ 64 then a * b else U64_MAX)"

definition monotonic_nanos :: "nat \<Rightarrow> nat \<Rightarrow> clock_globals \<Rightarrow> u64 \<times> clock_globals" where
  "monotonic_nanos t0 t1 s =
     (let a = (case anchor s of None \<Rightarrow> t0 | Some a \<Rightarrow> a);
          s = s\<lparr>anchor := Some a\<rparr>;
          elapsed = t1 - a
      in (saturating_mul (of_nat (elapsed div 1000000000)) 1000000000 + of_nat (elapsed mod 1000000000), s))"

definition record_counter_observation :: "u64 \<Rightarrow> u64 \<Rightarrow> nat \<Rightarrow> nat \<Rightarrow> clock_globals \<Rightarrow> clock_globals" where
  "record_counter_observation remote_counter local_counter t0 t1 s =
     (let delta = remote_counter - local_counter;
          s = (case delta_history s of
                 None \<Rightarrow> s
               | Some b \<Rightarrow>
                   let b = ring_push delta b;
                       med = median b
                   in s\<lparr>delta_history := Some b, est_skew := med\<rparr>)
      in case last_sample_ns s of
           None \<Rightarrow> s
         | Some _ \<Rightarrow> (let (ns, s) = monotonic_nanos t0 t1 s in s\<lparr>last_sample_ns := Some ns\<rparr>))"

definition estimated_skew :: "clock_globals \<Rightarrow> i64" where
  "estimated_skew s = est_skew s"

text \<open>The shorthands \<^verbatim>\<open>init\<close> and \<^verbatim>\<open>skew\<close>, and their exports \<^verbatim>\<open>init_clock_align\<close> and \<^verbatim>\<open>estimated_clock_skew\<close>.\<close>

definition clock_init :: "clock_globals \<Rightarrow> clock_globals" where
  "clock_init s = init_clock_align s"

definition clock_skew :: "clock_globals \<Rightarrow> i64" where
  "clock_skew s = estimated_skew s"

definition ffi_init_clock_align :: "clock_globals \<Rightarrow> clock_globals" where
  "ffi_init_clock_align s = clock_init s"

definition estimated_clock_skew :: "clock_globals \<Rightarrow> i64" where
  "estimated_clock_skew s = clock_skew s"

definition clock_start :: clock_globals where
  "clock_start = \<lparr>est_skew = 0, delta_history = None, last_sample_ns = None, anchor = None\<rparr>"

subsection \<open>A bounded log\<close>

text \<open>What a buffer of the last \<open>cap\<close> items promises, and what follows for any sequence of pushes.\<close>

locale bounded_log =
  fixes empty :: 'r and push :: "'i \<Rightarrow> 'r \<Rightarrow> 'r" and entries :: "'r \<Rightarrow> 'i list"
    and invar :: "'r \<Rightarrow> bool" and cap :: nat
  assumes cap_pos: "0 < cap"
    and invar_empty: "invar empty"
    and entries_empty: "entries empty = []"
    and invar_push: "invar r \<Longrightarrow> invar (push i r)"
    and entries_push: "invar r \<Longrightarrow>
      entries (push i r) = (if length (entries r) < cap then entries r else tl (entries r)) @ [i]"
begin

lemma invar_fold: "invar r \<Longrightarrow> invar (fold push xs r)"
  by (induction xs arbitrary: r) (simp_all add: invar_push)

lemma entries_fold: "entries (fold push xs empty) = drop (length xs - cap) xs"
proof (induction xs rule: rev_induct)
  case Nil
  then show ?case by (simp add: entries_empty)
next
  case (snoc x xs)
  have "entries (push x (fold push xs empty)) =
      (if length xs < cap then drop (length xs - cap) xs else tl (drop (length xs - cap) xs)) @ [x]"
    using cap_pos by (auto simp: entries_push invar_fold invar_empty snoc.IH)
  also have "\<dots> = drop (length (xs @ [x]) - cap) (xs @ [x])"
    using cap_pos by (auto simp: Suc_diff_le drop_Suc tl_drop)
  finally show ?case by simp
qed

end

definition ring_wf :: "skew_ring_buffer \<Rightarrow> bool" where
  "ring_wf r \<longleftrightarrow> length (buf r) = 16 \<and> write_idx r < 16 \<and> count r \<le> 16 \<and> (count r < 16 \<longrightarrow> write_idx r = count r)"

definition ring_entries :: "skew_ring_buffer \<Rightarrow> i64 list" where
  "ring_entries r =
     (if count r < 16 then take (count r) (buf r) else drop (write_idx r) (buf r) @ take (write_idx r) (buf r))"

lemma ring_wf_push: "ring_wf r \<Longrightarrow> ring_wf (ring_push d r)"
  by (auto simp: ring_wf_def ring_push_def Let_def DELTA_HISTORY_SIZE_def mod_Suc)

lemma ring_entries_push:
  assumes "ring_wf r"
  shows "ring_entries (ring_push d r) =
    (if length (ring_entries r) < 16 then ring_entries r else tl (ring_entries r)) @ [d]"
proof (cases "count r < 16")
  case True
  with assms have w: "write_idx r = count r" "length (buf r) = 16" by (simp_all add: ring_wf_def)
  have "take (Suc (count r)) ((buf r)[count r := d]) = take (count r) (buf r) @ [d]"
    using True w by (simp add: take_Suc_conv_app_nth)
  moreover have "drop 0 ((buf r)[15 := d]) = take 15 (buf r) @ [d]" if "count r = 15"
    using that w by (simp add: upd_conv_take_nth_drop)
  ultimately show ?thesis
    using True w by (auto simp: ring_entries_def ring_push_def Let_def DELTA_HISTORY_SIZE_def mod_Suc)
next
  case False
  with assms have w: "write_idx r < 16" "length (buf r) = 16" "count r = 16" by (simp_all add: ring_wf_def)
  show ?thesis
  proof (cases "write_idx r = 15")
    case True
    with w show ?thesis
      by (simp add: ring_entries_def ring_push_def Let_def DELTA_HISTORY_SIZE_def upd_conv_take_nth_drop tl_drop
          flip: drop_Suc)
  next
    case False
    with w have "Suc (write_idx r) < 16" by simp
    moreover have "drop (write_idx r) (buf r) = buf r ! write_idx r # drop (Suc (write_idx r)) (buf r)"
      using w by (simp add: Cons_nth_drop_Suc)
    ultimately show ?thesis
      using w by (simp add: ring_entries_def ring_push_def Let_def DELTA_HISTORY_SIZE_def take_Suc_conv_app_nth)
  qed
qed

interpretation skew_log: bounded_log ring_new ring_push ring_entries ring_wf 16
  by unfold_locales
    (simp_all add: ring_wf_push ring_entries_push, simp_all add: ring_wf_def ring_entries_def ring_new_def DELTA_HISTORY_SIZE_def)

subsection \<open>The estimate as a median\<close>

text \<open>The median of the most recent 16 of a list of deltas, the reference for the ring buffer.\<close>

definition mid_value :: "i64 list \<Rightarrow> i64" where
  "mid_value ss =
     (if ss = [] then 0
      else if length ss mod 2 = 1 then ss ! (length ss div 2)
      else i64_div (ss ! (length ss div 2 - 1) + ss ! (length ss div 2)) 2)"

definition window :: "i64 list \<Rightarrow> i64 list" where
  "window ds = drop (length ds - 16) ds"

lemma mset_ring_entries: "ring_wf r \<Longrightarrow> mset (take (count r) (buf r)) = mset (ring_entries r)"
  by (auto simp: ring_entries_def ring_wf_def simp flip: mset_append)
    (metis append_take_drop_id mset_append add.commute)

lemma sort_sint_mset: "mset xs = mset ys \<Longrightarrow> sort_key sint xs = sort_key (sint :: i64 \<Rightarrow> int) ys"
  by (rule sort_key_inj_key_eq) (auto simp: inj_on_def signed_word_eqI)

lemma sorted_entries_eq: "ring_wf r \<Longrightarrow> sorted_entries r = sort_key sint (ring_entries r)"
  unfolding sorted_entries_def by (rule sort_sint_mset) (rule mset_ring_entries)

lemma length_ring_entries: "ring_wf r \<Longrightarrow> length (ring_entries r) = count r"
  by (auto simp: ring_entries_def ring_wf_def)

lemma median_eq: "ring_wf r \<Longrightarrow> median r = mid_value (sort_key sint (ring_entries r))"
  unfolding median_def mid_value_def Let_def
  by (auto simp: sorted_entries_eq length_ring_entries simp flip: length_0_conv)

lemma median_after_pushes: "median (fold ring_push ds ring_new) = mid_value (sort_key sint (window ds))"
  by (simp add: median_eq skew_log.invar_fold skew_log.invar_empty skew_log.entries_fold window_def)

text \<open>The global state after a sequence of observations \<open>(remote, local, t0, t1)\<close>.\<close>

definition observe_all :: "(u64 \<times> u64 \<times> nat \<times> nat) list \<Rightarrow> clock_globals \<Rightarrow> clock_globals" where
  "observe_all obs s = fold (\<lambda>(r, l, t0, t1). record_counter_observation r l t0 t1) obs s"

definition deltas :: "(u64 \<times> u64 \<times> nat \<times> nat) list \<Rightarrow> i64 list" where
  "deltas obs = map (\<lambda>(r, l, t0, t1). r - l) obs"

lemma observe_ready:
  fixes r l t0 t1 s
  assumes "delta_history s = Some b" and "last_sample_ns s \<noteq> None"
  defines "s' \<equiv> record_counter_observation r l t0 t1 s"
  shows "delta_history s' = Some (ring_push (r - l) b) \<and> est_skew s' = median (ring_push (r - l) b) \<and>
    last_sample_ns s' \<noteq> None"
  using assms by (auto simp: record_counter_observation_def monotonic_nanos_def Let_def)

lemma observe_all_history:
  fixes obs s
  assumes "delta_history s = Some b" and "last_sample_ns s \<noteq> None" and "est_skew s = median b"
  defines "s' \<equiv> observe_all obs s"
  shows "delta_history s' = Some (fold ring_push (deltas obs) b) \<and> est_skew s' = median (fold ring_push (deltas obs) b)"
  unfolding s'_def using assms(1-3)
proof (induction obs arbitrary: s b)
  case Nil
  then show ?case by (simp add: observe_all_def deltas_def)
next
  case (Cons ob obs)
  obtain r l t0 t1 where ob: "ob = (r, l, t0, t1)" by (cases ob) auto
  from Cons.IH [of "record_counter_observation r l t0 t1 s" "ring_push (r - l) b"]
    observe_ready [OF Cons.prems(1,2)]
  show ?case by (simp add: ob observe_all_def deltas_def)
qed

lemma estimated_skew_after:
  "estimated_skew (observe_all obs (init_clock_align clock_start)) = median (fold ring_push (deltas obs) ring_new)"
proof -
  let ?s = "init_clock_align clock_start"
  have "delta_history ?s = Some ring_new" "last_sample_ns ?s \<noteq> None" "est_skew ?s = median ring_new"
    by (simp_all add: init_clock_align_def clock_start_def Let_def median_def ring_new_def)
  from observe_all_history [OF this, of obs] show ?thesis
    by (simp add: estimated_skew_def)
qed


subsection \<open>How far the estimate can be moved\<close>

lemma sorted_count_le:
  assumes "sorted (map f ss)" and "k < length ss" and "f (ss ! k) \<le> (v :: int)"
  shows "Suc k \<le> length (filter (\<lambda>d. f d \<le> v) ss)"
proof -
  have "f d \<le> v" if "d \<in> set (take (Suc k) ss)" for d
  proof -
    from that obtain j where "j < Suc k" "d = ss ! j" "j < length ss" by (auto simp: in_set_conv_nth)
    then show ?thesis
      using sorted_nth_mono [OF assms(1), of j k] assms(2,3) by simp
  qed
  then have "filter (\<lambda>d. f d \<le> v) (take (Suc k) ss) = take (Suc k) ss" by (simp add: filter_id_conv)
  moreover have "filter (\<lambda>d. f d \<le> v) ss =
      filter (\<lambda>d. f d \<le> v) (take (Suc k) ss) @ filter (\<lambda>d. f d \<le> v) (drop (Suc k) ss)"
    by (simp flip: filter_append)
  ultimately show ?thesis using assms(2) by simp
qed

lemma sorted_count_ge:
  assumes "sorted (map f ss)" and "k < length ss" and "(v :: int) \<le> f (ss ! k)"
  shows "length ss - k \<le> length (filter (\<lambda>d. v \<le> f d) ss)"
proof -
  have "v \<le> f d" if "d \<in> set (drop k ss)" for d
  proof -
    from that obtain j where "d = ss ! (k + j)" "k + j < length ss" by (auto simp: in_set_conv_nth)
    then show ?thesis
      using sorted_nth_mono [OF assms(1), of k "k + j"] assms(2,3) by simp
  qed
  then have "filter (\<lambda>d. v \<le> f d) (drop k ss) = drop k ss" by (simp add: filter_id_conv)
  moreover have "filter (\<lambda>d. v \<le> f d) ss = filter (\<lambda>d. v \<le> f d) (take k ss) @ filter (\<lambda>d. v \<le> f d) (drop k ss)"
    by (simp flip: filter_append)
  ultimately show ?thesis by simp
qed

definition small :: "i64 \<Rightarrow> bool" where
  "small d \<longleftrightarrow> - (2 ^ 62) \<le> sint d \<and> sint d < 2 ^ 62"

lemma average_between:
  assumes "small a" and "small b" and "sint a \<le> sint b"
  shows "sint a \<le> sint (i64_div (a + b) 2) \<and> sint (i64_div (a + b) 2) \<le> sint b"
proof -
  have sum: "sint (a + b) = sint a + sint b"
    using assms by (simp add: sint_word_add small_def signed_take_bit_int_eq_self)
  have "sint a \<le> (sint a + sint b) sdiv 2 \<and> (sint a + sint b) sdiv 2 \<le> sint b"
    using assms(3) by (auto simp: signed_divide_int_def sgn_if)
  moreover from this assms have "sint (word_of_int ((sint a + sint b) sdiv 2) :: i64) = (sint a + sint b) sdiv 2"
    by (simp add: sint_sbintrunc' small_def signed_take_bit_int_eq_self)
  ultimately show ?thesis by (simp add: i64_div_def sum)
qed

lemma mid_value_half:
  assumes "sorted (map sint ss)" and "list_all small ss"
  shows "length ss \<le> 2 * length (filter (\<lambda>d. sint d \<le> sint (mid_value ss)) ss) \<and>
         length ss \<le> 2 * length (filter (\<lambda>d. sint (mid_value ss) \<le> sint d) ss)"
proof (cases "ss = []")
  case False
  let ?k = "length ss div 2" and ?m = "mid_value ss"
  from False have k: "?k < length ss" by simp
  show ?thesis
  proof (cases "length ss mod 2 = 1")
    case True
    with False have "?m = ss ! ?k" by (simp add: mid_value_def)
    then have "Suc ?k \<le> length (filter (\<lambda>d. sint d \<le> sint ?m) ss)"
      and "length ss - ?k \<le> length (filter (\<lambda>d. sint ?m \<le> sint d) ss)"
      using sorted_count_le [OF assms(1) k] sorted_count_ge [OF assms(1) k] by simp_all
    with True show ?thesis by presburger
  next
    case even: False
    with False have "2 \<le> length ss" by (cases ss rule: remdups_adj.cases) simp_all
    then have j: "?k - 1 < length ss" and "0 < ?k" by simp_all
    from even False have m: "?m = i64_div (ss ! (?k - 1) + ss ! ?k) 2" by (simp add: mid_value_def)
    have "sint (ss ! (?k - 1)) \<le> sint (ss ! ?k)"
      using sorted_nth_mono [OF assms(1), of "?k - 1" ?k] k j by simp
    moreover have "small (ss ! (?k - 1))" "small (ss ! ?k)"
      using assms(2) k j by (simp_all add: list_all_length)
    ultimately have "sint (ss ! (?k - 1)) \<le> sint ?m" "sint ?m \<le> sint (ss ! ?k)"
      using average_between m by simp_all
    then have "Suc (?k - 1) \<le> length (filter (\<lambda>d. sint d \<le> sint ?m) ss)"
      and "length ss - ?k \<le> length (filter (\<lambda>d. sint ?m \<le> sint d) ss)"
      using sorted_count_le [OF assms(1) j] sorted_count_ge [OF assms(1) k] by simp_all
    with even \<open>0 < ?k\<close> show ?thesis by presburger
  qed
qed simp

text \<open>As long as the deltas of the window stay below \<open>2\<close> to the power \<open>62\<close> in magnitude, the estimate is a true
  median: at least half of the last 16 deltas are at most the estimate and at least half are at least
  the estimate, so a peer that controls fewer than half of the observations cannot move it outside
  the honest ones.\<close>

lemma skew_outvotes:
  fixes obs
  defines "w \<equiv> window (deltas obs)"
    and "m \<equiv> estimated_skew (observe_all obs (init_clock_align clock_start))"
  assumes "list_all small w"
  shows "length w \<le> 2 * length (filter (\<lambda>d. sint d \<le> sint m) w) \<and>
         length w \<le> 2 * length (filter (\<lambda>d. sint m \<le> sint d) w)"
proof -
  let ?ss = "sort_key sint w"
  have m: "m = mid_value ?ss"
    by (simp add: m_def w_def estimated_skew_after median_after_pushes)
  have "sorted (map sint ?ss)" and "list_all small ?ss"
    using assms(3) by (simp_all add: list_all_iff)
  from mid_value_half [OF this] show ?thesis
    by (simp add: filter_sort flip: m)
qed

text \<open>Beyond that bound the sum of the two middle deltas wraps: two observations in which the remote
  counter is ahead by \<open>2\<close> to the power \<open>62\<close> yield an estimate that is behind by as much.\<close>

lemma skew_average_wraps:
  "sint (estimated_skew (observe_all [(2 ^ 62, 0, 0, 0), (2 ^ 62, 0, 0, 0)] (init_clock_align clock_start))) = - (2 ^ 62) \<and>
   deltas [(2 ^ 62, 0, 0, 0), (2 ^ 62, 0, 0, 0)] = [2 ^ 62, 2 ^ 62] \<and> sint (2 ^ 62 :: i64) = 2 ^ 62"
proof -
  let ?obs = "[(2 ^ 62, 0, 0, 0), (2 ^ 62, 0, 0, 0)] :: (u64 \<times> u64 \<times> nat \<times> nat) list"
  have "estimated_skew (observe_all ?obs (init_clock_align clock_start)) = i64_div (2 ^ 62 + 2 ^ 62) 2"
    unfolding estimated_skew_after median_after_pushes by (simp add: window_def deltas_def mid_value_def)
  moreover have "sint (i64_div (2 ^ 62 + 2 ^ 62) 2) = - (2 ^ 62)"
    by (simp add: i64_div_def)
  ultimately show ?thesis by (simp add: deltas_def)
qed

end
