(* ===== verification/Unit_Tests.thy ===== *)
theory Unit_Tests
  imports Volume_Tests Evolution Message_Cipher Anti_Dos Tail_Padding Clock_Align
begin

text \<open>
  The unit tests of the other modules, as far as they do not assert that two outputs of a hash or cipher differ.  They run on an
  arbitrary state of the crate's globals, as the tests of one binary do in any order.
\<close>

subsection \<open>message_cipher.rs and anti_dos.rs\<close>

definition msg_seq_monotonic :: "'a msg_globals_scheme \<Rightarrow> unit outcome" where
  "msg_seq_monotonic s =
     (let (a, s) = next_msg_seq s;
          (b, s) = next_msg_seq s
      in assert_that (b > a) (Done ()))"

definition recover_forward :: "env \<Rightarrow> 'a root_globals_scheme \<Rightarrow> unit outcome" where
  "recover_forward E s =
     (let key = replicate 32 1;
          s = set_root_state_curr key s;
          s = set_epoch_id 0 s;
          (new_e, s) = recover_after_loss E 5 s
      in assert_that (new_e = 5)
         (assert_that (read_epoch_id s = 5)
         (assert_that (read_root_state_curr s \<noteq> key)
         (Done ()))))"

definition noop_if_same :: "env \<Rightarrow> 'a root_globals_scheme \<Rightarrow> unit outcome" where
  "noop_if_same E s =
     (let s = set_root_state_curr (replicate 32 2) s;
          s = set_epoch_id 10 s
      in assert_that (fst (recover_after_loss E 5 s) = 10) (Done ()))"

definition cap_enforced :: "env \<Rightarrow> 'a root_globals_scheme \<Rightarrow> unit outcome" where
  "cap_enforced E s =
     (let s = set_root_state_curr (replicate 32 3) s;
          s = set_epoch_id 0 s
      in assert_that (fst (recover_after_loss E 200000 s) = U32_MAX) (Done ()))"

lemma msg_seq_monotonic_passes: "msg_counter s \<noteq> U64_MAX \<Longrightarrow> msg_seq_monotonic s = Done ()"
  by (simp add: msg_seq_monotonic_def next_msg_seq_def assert_that_def word_less_nat_alt unat_plus_one)

text \<open>At the last number before the wrap-around the test fails.\<close>

lemma msg_seq_monotonic_fails: "msg_counter s = U64_MAX \<Longrightarrow> msg_seq_monotonic s = Panic"
  by (simp add: msg_seq_monotonic_def next_msg_seq_def assert_that_def)

text \<open>This test asserts that a hash differs from its input, so it passes exactly as far as the hash does that.\<close>

lemma recover_forward_passes:
  assumes "hkdf_laws E" and "(roll_key E ^^ 5) (replicate 32 1) \<noteq> replicate 32 1"
  shows "recover_forward E s = Done ()"
  using recover_ahead [OF assms(1), of "set_epoch_id 0 (set_root_state_curr (replicate 32 1) s)" 5] assms(2)
  by (simp add: recover_forward_def set_epoch_id_def set_root_state_curr_def read_epoch_id_def read_root_state_curr_def
      assert_that_def)

lemma noop_if_same_passes: "noop_if_same E s = Done ()"
  by (simp add: noop_if_same_def recover_not_ahead set_epoch_id_def)

lemma cap_enforced_passes:
  assumes "hkdf_laws E"
  shows "cap_enforced E s = Done ()"
  using recover_ahead [OF assms, of "set_epoch_id 0 (set_root_state_curr (replicate 32 3) s)" 200000]
  by (simp add: cap_enforced_def set_epoch_id_def)

subsection \<open>tail_padding.rs\<close>

definition tail_roundtrip :: "env \<Rightarrow> 'w world_scheme \<Rightarrow> unit outcome" where
  "tail_roundtrip E w =
     (let data = ascii ''encrypted message payload'';
          (padded, w) = add_tail_padding E data w
      in case strip_tail_padding padded of None \<Rightarrow> Panic | Some stripped \<Rightarrow> assert_that (data = stripped) (Done ()))"

definition length_in_range :: "env \<Rightarrow> 'w world_scheme \<Rightarrow> unit outcome" where
  "length_in_range E w =
     (let data = ascii ''test'';
          (padded, w) = add_tail_padding E data w;
          len_without_pad = length padded - 2;
          pad_len = unat (u16_from_le [padded ! (length padded - 2), padded ! (length padded - 1)])
      in assert_that (pad_len \<ge> 16 \<and> pad_len \<le> 512)
         (assert_that (length data + pad_len = len_without_pad) (Done ())))"

lemma tail_roundtrip_passes: "tail_roundtrip E w = Done ()"
proof -
  obtain padded w' where p: "add_tail_padding E (ascii ''encrypted message payload'') w = (padded, w')" by force
  then show ?thesis unfolding tail_roundtrip_def Let_def by (simp only: p prod.case add_tail_padding_strips(1) [OF p]) simp
qed

lemma length_in_range_passes: "length_in_range E w = Done ()"
proof -
  obtain noise where n: "fst (add_tail_padding E (ascii ''test'') w) = ascii ''test'' @ noise @ u16_to_le (of_nat (length noise))"
    "16 \<le> length noise" "length noise \<le> 512"
    by (rule add_tail_padding_split)
  obtain padded w' where p: "add_tail_padding E (ascii ''test'') w = (padded, w')" by force
  then have padded: "padded = (ascii ''test'' @ noise) @ u16_to_le (of_nat (length noise))" using n(1) by simp
  have "[padded ! (length padded - 2), padded ! (length padded - 1)] = u16_to_le (of_nat (length noise))"
    unfolding padded by (rule last_two_bytes) simp
  moreover have "unat (of_nat (length noise) :: u16) = length noise" using n(3) by (simp add: unat_of_nat)
  moreover have "length padded = length noise + 6" unfolding padded by simp
  ultimately show ?thesis using n(2,3) unfolding length_in_range_def Let_def p prod.case by simp
qed

subsection \<open>evolution.rs\<close>

definition full_evolution_cycle :: "env \<Rightarrow> 'a evo_globals_scheme \<Rightarrow> unit outcome" where
  "full_evolution_cycle E s =
     (let key = replicate 32 1;
          s = set_root_state_curr key s;
          s = set_epoch_id 0 s
      in case generate_bob_keypair E (zeros 1568) (zeros 3168) s of Panic \<Rightarrow> Panic | Done (rc, pk, sk, s) \<Rightarrow>
         assert_that (rc = 0)
         (let s = set_peer_public_key E pk s
          in case start_evolution E s of Panic \<Rightarrow> Panic | Done (rc, s) \<Rightarrow>
             assert_that (rc = 0)
             (let ct_len = kem_cipher_len s
              in assert_that (ct_len > 0)
                 (let (n, ct) = get_kem_cipher (zeros ct_len) s
                  in assert_that (n = ct_len)
                     (let pend_before = read_root_state_pend s
                      in assert_that (pend_before \<noteq> None)
                         (case apply_peer_kem E ct s of Panic \<Rightarrow> Panic | Done (rc, s) \<Rightarrow>
                          assert_that (rc = 0)
                          (let pend_after = read_root_state_pend s
                           in assert_that (pend_before = pend_after)
                              (let (rc, s) = evolution_commit E s
                               in assert_that (rc = 0)
                                  (assert_that (read_epoch_id s = 1) (Done ()))))))))))"

lemma full_evolution_cycle_passes:
  assumes "hash_sizes E" and "hkdf_laws E" and "kyber_laws E"
  shows "full_evolution_cycle E s = Done ()"
proof -
  let ?s = "set_epoch_id 0 (set_root_state_curr (replicate 32 1) s)"
  let ?pk = "fst (kyber_keypair E (rng_draws ?s))" and ?sk = "snd (kyber_keypair E (rng_draws ?s))"
  let ?b = "?s\<lparr>rng_draws := Suc (rng_draws ?s), bob_keys := (?pk, sb_from_vec (to_vec ?sk))\<rparr>"
  let ?a = "set_peer_public_key E ?pk ?b"
  have gen: "generate_bob_keypair E (zeros 1568) (zeros 3168) ?s = Done (0, ?pk, ?sk, ?b)"
    using assms(3) by (rule generate_bob_keypair_accepts) simp_all
  have pre: "pk_bound E ?a" "bob_public_key ?a = ?pk"
    by (simp_all add: set_peer_public_key_pk_bound) (simp add: set_peer_public_key_def)
  obtain ct k ss where ct: "length ct = 1568" and k: "length k = 32"
    and start: "start_evolution E ?a = Done (0, ?a\<lparr>rng_draws := Suc (rng_draws ?a), root_pend := Some k,
           kem_cipher := Some (sb_from_vec (to_vec ct))\<rparr>)"
    and bob: "kyber_decapsulate E ct ?sk = Some ss" "length ss = 32" "derive_pending_key E ss (root_curr ?a) = Some k"
    by (rule evolution_agreement [OF assms pre])
  let ?a1 = "?a\<lparr>rng_draws := Suc (rng_draws ?a), root_pend := Some k, kem_cipher := Some (sb_from_vec (to_vec ct))\<rparr>"
  have len: "kem_cipher_len ?a1 = 1568" using ct by (simp add: kem_cipher_len_def)
  have get: "get_kem_cipher (zeros 1568) ?a1 = (1568, ct)"
    using get_kem_cipher_all [of ?a1 ct] ct by simp
  have "length ?sk = 3168" using assms(3) unfolding kyber_laws_def by blast
  then have "?sk \<noteq> []" by auto
  then have app: "apply_peer_kem E ct ?a1 = Done (0, ?a1)"
    using bob apply_peer_kem_accepts [of ?a1 ?sk E ct ss k] by (simp add: set_peer_public_key_def)
  have com: "evolution_commit E ?a1 =
      (0, ?a1\<lparr>msg_counter := 1, root_curr := k, root_pend := None, epoch_id := epoch_id ?a1 + 1\<rparr>)"
    unfolding evolution_commit_def by (rule commit_evolution_Some) simp
  show ?thesis
    unfolding full_evolution_cycle_def Let_def
    by (simp only: gen start len get app com outcome.case prod.case) (simp add: read_root_state_pend_def read_epoch_id_def set_peer_public_key_def)
qed

subsection \<open>memory_protection.rs\<close>

definition secure_buffer_deref_works :: "unit outcome" where
  "secure_buffer_deref_works =
     (let b = sb_from_vec (to_vec [1, 2, 3])
      in assert_that (sb_deref b = [1, 2, 3]) (Done ()))"

definition clear_resets_buffer :: "env \<Rightarrow> unit outcome" where
  "clear_resets_buffer E =
     (let b = sb_from_vec (to_vec (replicate 32 0xFF));
          b = sb_clear E b
      in assert_that (sb_is_empty b) (Done ()))"

lemma buffer_tests_pass: "secure_buffer_deref_works = Done ()" "clear_resets_buffer E = Done ()"
  by (simp_all add: secure_buffer_deref_works_def clear_resets_buffer_def sb_deref_def sb_from_vec_def to_vec_def sb_clear_def
      sb_is_empty_def vec_clear_def)

subsection \<open>clock_align.rs\<close>

definition ring_buffer_push_and_median :: "unit outcome" where
  "ring_buffer_push_and_median =
     (let b = ring_new
      in assert_that (median b = 0)
         (let b = ring_push 5 b;
              b = ring_push 10 b;
              b = ring_push 15 b
          in assert_that (median b = 10) (Done ())))"

definition ring_buffer_median_even_count :: "unit outcome" where
  "ring_buffer_median_even_count =
     (let b = ring_new;
          b = ring_push 10 b;
          b = ring_push 20 b
      in assert_that (median b = 15) (Done ()))"

definition ring_buffer_wraps_correctly :: "unit outcome" where
  "ring_buffer_wraps_correctly =
     (let b = fold (\<lambda>i. ring_push (of_nat i)) [0..<DELTA_HISTORY_SIZE + 4] ring_new
      in assert_that (count b = DELTA_HISTORY_SIZE)
         (let sorted = sorted_entries b
          in assert_that (length sorted = DELTA_HISTORY_SIZE)
             (assert_that (sorted ! 0 = 4) (Done ()))))"

lemma ring_tests_pass:
  "ring_buffer_push_and_median = Done ()" "ring_buffer_median_even_count = Done ()" "ring_buffer_wraps_correctly = Done ()"
  by code_simp+

text \<open>The readings of the clock are \<open>t0\<close>, \<open>t1\<close> in the first call and \<open>t2\<close>, \<open>t3\<close> in the second, a millisecond of sleep between them.\<close>

definition monotonic_nanos_increases :: "nat \<Rightarrow> nat \<Rightarrow> nat \<Rightarrow> nat \<Rightarrow> clock_globals \<Rightarrow> unit outcome" where
  "monotonic_nanos_increases t0 t1 t2 t3 s =
     (let (a, s) = monotonic_nanos t0 t1 s;
          (b, s) = monotonic_nanos t2 t3 s
      in assert_that (b > a) (Done ()))"

lemma nanos_exact:
  assumes "t < 2 ^ 64"
  shows "unat (saturating_mul (of_nat (t div 1000000000)) 1000000000 + of_nat (t mod 1000000000)) = t"
proof -
  have le: "t div 1000000000 * 1000000000 \<le> t" by simp
  then have q: "unat (of_nat (t div 1000000000) :: u64) = t div 1000000000"
    using assms by (simp add: unat_of_nat)
  then have "saturating_mul (of_nat (t div 1000000000)) 1000000000 = of_nat (t div 1000000000 * 1000000000)"
    using assms le by (simp add: saturating_mul_def)
  then have "saturating_mul (of_nat (t div 1000000000)) 1000000000 + of_nat (t mod 1000000000) =
      (of_nat (t div 1000000000 * 1000000000 + t mod 1000000000) :: u64)" by (simp only: of_nat_add)
  also have "t div 1000000000 * 1000000000 + t mod 1000000000 = t" by simp
  finally show ?thesis using assms by (simp add: unat_of_nat)
qed

lemma monotonic_nanos_increases_passes:
  assumes "(case anchor s of None \<Rightarrow> t0 | Some a \<Rightarrow> a) \<le> t1" and "t1 + 1000000 \<le> t3"
    and "t3 - (case anchor s of None \<Rightarrow> t0 | Some a \<Rightarrow> a) < 2 ^ 64"
  shows "monotonic_nanos_increases t0 t1 t2 t3 s = Done ()"
proof -
  let ?a = "case anchor s of None \<Rightarrow> t0 | Some a \<Rightarrow> a"
  have "unat (fst (monotonic_nanos t0 t1 s)) = t1 - ?a" "anchor (snd (monotonic_nanos t0 t1 s)) = Some ?a"
    "unat (fst (monotonic_nanos t2 t3 (snd (monotonic_nanos t0 t1 s)))) = t3 - ?a"
    using assms by (simp_all add: monotonic_nanos_def Let_def nanos_exact)
  then have "fst (monotonic_nanos t0 t1 s) < fst (monotonic_nanos t2 t3 (snd (monotonic_nanos t0 t1 s)))"
    using assms(1,2) by (simp add: word_less_nat_alt)
  then show ?thesis by (simp add: monotonic_nanos_increases_def assert_that_def Let_def case_prod_beta)
qed

subsection \<open>All of them\<close>



end
