(* ===== verification/Constant_Flow.thy ===== *)
theory Constant_Flow
  imports Tail_Padding
begin

text \<open>
  \<^verbatim>\<open>constant_flow.rs\<close>: the cover-traffic sender.  Each thread that was spawned, each call of start past its test and each call
  of stop is a program counter, and every access to the shared statics is a step of its own, so senders, starters and
  stoppers interleave at these points.  Time is abstract: a sleeping thread may wake at any later step.  \<open>sent\<close> is the ghost
  list of the packets handed to callbacks, newest first.

  The lock of the callback is held while the callback runs (its guard lives as long as the \<^verbatim>\<open>if let\<close> that tests it); it is
  free when no thread is \<open>Sending\<close>.  The lock of the queue is held during one step only, but a panic under it, which an
  entropy failure of \<^verbatim>\<open>OsRng\<close> causes, poisons it: every later \<^verbatim>\<open>lock().unwrap()\<close> panics.  In a sender the panic is caught and
  clears the flag and the callback; in stop, which is exported to C, it aborts the process.
\<close>

definition PACKET_SIZE :: nat where "PACKET_SIZE = 4096"

text \<open>A sender thread: at the loop head, asleep, woken and past the second test, holding a packet, inside the callback, after a
  caught panic (before clearing the flag, before clearing the callback), ended.\<close>

datatype phase =
    Head | Sleeping | Awake | Holding bytes | Sending nat bytes | Unwound_flag | Unwound_callback | Ended

text \<open>A call of start past its test, and a call of stop: the access that comes next.\<close>

datatype start_phase = Start_callback nat | Start_flag | Start_spawn
datatype stop_phase = Stop_flag | Stop_callback | Stop_queue

record flow_globals = world +
  running :: bool
  pending_payload :: "bytes option"
  queue_poisoned :: bool
  tx_callback :: "nat option"
  threads :: "phase list"
  starters :: "start_phase list"
  stoppers :: "stop_phase list"
  sent :: "(nat \<times> bytes) list"
  aborted :: bool

definition build_noise_packet :: "env \<Rightarrow> 'w world_scheme \<Rightarrow> bytes \<times> 'w world_scheme" where
  "build_noise_packet E w = fill_bytes E PACKET_SIZE w"

definition queue_real_message :: "bytes \<Rightarrow> flow_globals \<Rightarrow> flow_globals outcome" where
  "queue_real_message payload s = (if queue_poisoned s then Panic else Done (s\<lparr>pending_payload := Some payload\<rparr>))"

text \<open>The body of the loop up to the packet: take the queued payload, cut it, fill the rest of the packet with noise.\<close>

definition next_packet :: "env \<Rightarrow> flow_globals \<Rightarrow> bytes \<times> flow_globals" where
  "next_packet E s =
     (let q = pending_payload s;
          s = s\<lparr>pending_payload := None\<rparr>
      in case q of
           Some data \<Rightarrow>
             (let pkt = (if length data > PACKET_SIZE then take PACKET_SIZE data else data);
                  len = length pkt;
                  (noise, s) = fill_bytes E (PACKET_SIZE - len) s
              in (pkt @ noise, s))
         | None \<Rightarrow> build_noise_packet E s)"

text \<open>Whether the body asks the generator for at least one byte.\<close>

definition needs_noise :: "flow_globals \<Rightarrow> bool" where
  "needs_noise s = (case pending_payload s of Some data \<Rightarrow> length data < PACKET_SIZE | None \<Rightarrow> True)"

fun is_sending :: "phase \<Rightarrow> bool" where
  "is_sending (Sending cb pkt) = True"
| "is_sending _ = False"

definition callback_free :: "flow_globals \<Rightarrow> bool" where
  "callback_free s \<longleftrightarrow> \<not> list_ex is_sending (threads s)"

text \<open>One step of the thread with program counter \<open>p\<close>; \<open>None\<close> when it waits for the callback's lock or has ended.  \<open>fault\<close>: the
  entropy source fails when it is asked in this step.\<close>

fun thread_step :: "env \<Rightarrow> bool \<Rightarrow> phase \<Rightarrow> flow_globals \<Rightarrow> (phase \<times> flow_globals) option" where
  "thread_step E fault Head s = Some (if running s then Sleeping else Ended, s)"
| "thread_step E fault Sleeping s = Some (if running s then Awake else Ended, s)"
| "thread_step E fault Awake s =
     (if queue_poisoned s then Some (Unwound_flag, s)
      else if fault \<and> needs_noise s then Some (Unwound_flag, s\<lparr>pending_payload := None, queue_poisoned := True\<rparr>)
      else let (pkt, s) = next_packet E s in Some (Holding pkt, s))"
| "thread_step E fault (Holding pkt) s =
     (if \<not> callback_free s then None
      else
        case tx_callback s of
          Some cb \<Rightarrow> Some (Sending cb pkt, s\<lparr>sent := (cb, pkt) # sent s\<rparr>)
        | None \<Rightarrow> Some (Head, s))"
| "thread_step E fault (Sending cb pkt) s = Some (Head, s)"
| "thread_step E fault Unwound_flag s = Some (Unwound_callback, s\<lparr>running := False\<rparr>)"
| "thread_step E fault Unwound_callback s = (if \<not> callback_free s then None else Some (Ended, s\<lparr>tx_callback := None\<rparr>))"
| "thread_step E fault Ended s = None"

text \<open>The entry of start, which refuses while the flag is set, and the accesses that follow it.\<close>

definition start_check :: "nat \<Rightarrow> flow_globals \<Rightarrow> flow_globals option" where
  "start_check cb s = (if running s then None else Some (s\<lparr>starters := Start_callback cb # starters s\<rparr>))"

fun start_step :: "start_phase \<Rightarrow> flow_globals \<Rightarrow> (start_phase option \<times> flow_globals) option" where
  "start_step (Start_callback cb) s =
     (if \<not> callback_free s then None else Some (Some Start_flag, s\<lparr>tx_callback := Some cb\<rparr>))"
| "start_step Start_flag s = Some (Some Start_spawn, s\<lparr>running := True\<rparr>)"
| "start_step Start_spawn s = Some (None, s\<lparr>threads := threads s @ [Head]\<rparr>)"

fun stop_step :: "stop_phase \<Rightarrow> flow_globals \<Rightarrow> (stop_phase option \<times> flow_globals) option" where
  "stop_step Stop_flag s = Some (Some Stop_callback, s\<lparr>running := False\<rparr>)"
| "stop_step Stop_callback s =
     (if \<not> callback_free s then None else Some (Some Stop_queue, s\<lparr>tx_callback := None\<rparr>))"
| "stop_step Stop_queue s =
     (if queue_poisoned s then Some (None, s\<lparr>aborted := True\<rparr>) else Some (None, s\<lparr>pending_payload := None\<rparr>))"

text \<open>The step of the thread, the starter or the stopper number \<open>i\<close>; a call that has returned leaves its list.\<close>

fun set_or_drop :: "nat \<Rightarrow> 'a option \<Rightarrow> 'a list \<Rightarrow> 'a list" where
  "set_or_drop i None xs = take i xs @ drop (Suc i) xs"
| "set_or_drop i (Some x) xs = xs[i := x]"

definition thread_at :: "env \<Rightarrow> bool \<Rightarrow> nat \<Rightarrow> flow_globals \<Rightarrow> flow_globals option" where
  "thread_at E fault i s =
     (if i < length (threads s) then
        map_option (\<lambda>(p, s'). s'\<lparr>threads := (threads s')[i := p]\<rparr>) (thread_step E fault (threads s ! i) s)
      else None)"

definition start_at :: "nat \<Rightarrow> flow_globals \<Rightarrow> flow_globals option" where
  "start_at i s =
     (if i < length (starters s) then
        map_option (\<lambda>(r, s'). s'\<lparr>starters := set_or_drop i r (starters s')\<rparr>) (start_step (starters s ! i) s)
      else None)"

definition stop_at :: "nat \<Rightarrow> flow_globals \<Rightarrow> flow_globals option" where
  "stop_at i s =
     (if i < length (stoppers s) then
        map_option (\<lambda>(r, s'). s'\<lparr>stoppers := set_or_drop i r (stoppers s')\<rparr>) (stop_step (stoppers s ! i) s)
      else None)"

inductive flow_step :: "env \<Rightarrow> flow_globals \<Rightarrow> flow_globals \<Rightarrow> bool" for E where
  flow_thread: "\<not> aborted s \<Longrightarrow> thread_at E fault i s = Some s' \<Longrightarrow> flow_step E s s'"
| flow_queue: "\<not> aborted s \<Longrightarrow> queue_real_message payload s = Done s' \<Longrightarrow> flow_step E s s'"
| flow_start_check: "\<not> aborted s \<Longrightarrow> start_check cb s = Some s' \<Longrightarrow> flow_step E s s'"
| flow_start: "\<not> aborted s \<Longrightarrow> start_at i s = Some s' \<Longrightarrow> flow_step E s s'"
| flow_stop_begin: "\<not> aborted s \<Longrightarrow> flow_step E s (s\<lparr>stoppers := Stop_flag # stoppers s\<rparr>)"
| flow_stop: "\<not> aborted s \<Longrightarrow> stop_at i s = Some s' \<Longrightarrow> flow_step E s s'"

inductive_cases flow_stepE: "flow_step E s s'"

text \<open>A start call and a stop call with which nobody interleaves, in a state whose callback lock is free.\<close>

definition start_constant_flow :: "nat \<Rightarrow> flow_globals \<Rightarrow> u32 \<times> flow_globals" where
  "start_constant_flow cb s =
     (if running s then (1, s)
      else
        let s = s\<lparr>tx_callback := Some cb\<rparr>;
            s = s\<lparr>running := True\<rparr>;
            s = s\<lparr>threads := threads s @ [Head]\<rparr>
        in (0, s))"

definition stop_constant_flow :: "flow_globals \<Rightarrow> (u32 \<times> flow_globals) outcome" where
  "stop_constant_flow s =
     (let s = s\<lparr>running := False\<rparr>;
          s = s\<lparr>tx_callback := None\<rparr>
      in if queue_poisoned s then Panic else Done (0, s\<lparr>pending_payload := None\<rparr>))"

definition flow_initial :: "flow_globals \<Rightarrow> bool" where
  "flow_initial s \<longleftrightarrow> \<not> running s \<and> pending_payload s = None \<and> \<not> queue_poisoned s \<and> tx_callback s = None \<and>
     threads s = [] \<and> starters s = [] \<and> stoppers s = [] \<and> sent s = [] \<and> \<not> aborted s"

definition demo_flow :: flow_globals where
  "demo_flow = world.extend demo_world (flow_globals.fields False None False None [] [] [] [] False)"

lemma demo_flow_initial: "flow_initial demo_flow"
  by (simp add: flow_initial_def demo_flow_def world.extend_def flow_globals.fields_def)

subsection \<open>Frames\<close>

lemma next_packet_length: "length (fst (next_packet E s)) = 4096"
  by (auto simp: next_packet_def build_noise_packet_def PACKET_SIZE_def fill_bytes_def Let_def split: option.split)

lemma next_packet_frame:
  "next_packet E s = (pkt, s') \<Longrightarrow> sent s' = sent s \<and> threads s' = threads s \<and> tx_callback s' = tx_callback s \<and>
     running s' = running s \<and> starters s' = starters s \<and> stoppers s' = stoppers s \<and> queue_poisoned s' = queue_poisoned s \<and>
     aborted s' = aborted s"
  by (auto simp: next_packet_def build_noise_packet_def fill_bytes_def Let_def split: option.splits)

lemma thread_step_cases [consumes 1, case_names move build panic send skip return flag callback]:
  assumes "thread_step E fault p s = Some (q, s')"
  obtains
    (move) "p = Head \<or> p = Sleeping" and "q = (if running s then (if p = Head then Sleeping else Awake) else Ended)" and "s' = s"
  | (build) pkt where "p = Awake" and "\<not> queue_poisoned s" and "next_packet E s = (pkt, s')" and "q = Holding pkt"
  | (panic) "p = Awake" and "q = Unwound_flag"
      and "s' = s \<and> queue_poisoned s \<or> s' = s\<lparr>pending_payload := None, queue_poisoned := True\<rparr>"
  | (send) pkt cb where "p = Holding pkt" and "callback_free s" and "tx_callback s = Some cb" and "q = Sending cb pkt"
      and "s' = s\<lparr>sent := (cb, pkt) # sent s\<rparr>"
  | (skip) pkt where "p = Holding pkt" and "callback_free s" and "tx_callback s = None" and "q = Head" and "s' = s"
  | (return) cb pkt where "p = Sending cb pkt" and "q = Head" and "s' = s"
  | (flag) "p = Unwound_flag" and "q = Unwound_callback" and "s' = s\<lparr>running := False\<rparr>"
  | (callback) "p = Unwound_callback" and "callback_free s" and "q = Ended" and "s' = s\<lparr>tx_callback := None\<rparr>"
proof (cases p)
  case Head
  with assms have "q = (if running s then Sleeping else Ended)" "s' = s" by auto
  with Head show thesis by (intro move) simp_all
next
  case Sleeping
  with assms have "q = (if running s then Awake else Ended)" "s' = s" by auto
  with Sleeping show thesis by (intro move) simp_all
next
  case Awake
  show thesis
  proof (cases "queue_poisoned s \<or> fault \<and> needs_noise s")
    case True
    with assms Awake have "q = Unwound_flag" "s' = s \<and> queue_poisoned s \<or> s' = s\<lparr>pending_payload := None, queue_poisoned := True\<rparr>"
      by (simp_all split: if_splits)
    with Awake show thesis by (rule panic)
  next
    case False
    obtain pkt u where np: "next_packet E s = (pkt, u)" by (rule prod.exhaust)
    from False have "\<not> queue_poisoned s" by simp
    moreover from assms Awake False np have "q = Holding pkt" and "next_packet E s = (pkt, s')" by (simp_all split: if_splits)
    ultimately show thesis using Awake build by simp
  qed
next
  case (Holding pkt)
  with assms have free: "callback_free s" by (simp split: if_splits)
  show thesis
  proof (cases "tx_callback s")
    case None
    with assms Holding free have "q = Head" "s' = s" by simp_all
    with Holding free None show thesis by (rule skip)
  next
    case (Some cb)
    with assms Holding free have "q = Sending cb pkt" "s' = s\<lparr>sent := (cb, pkt) # sent s\<rparr>" by simp_all
    with Holding free Some show thesis by (rule send)
  qed
next
  case (Sending cb pkt)
  with assms have "q = Head" "s' = s" by simp_all
  with Sending show thesis by (rule return)
next
  case Unwound_flag
  with assms have "q = Unwound_callback" "s' = s\<lparr>running := False\<rparr>" by simp_all
  with Unwound_flag show thesis by (rule flag)
next
  case Unwound_callback
  with assms have "callback_free s" "q = Ended" "s' = s\<lparr>tx_callback := None\<rparr>" by (simp_all split: if_splits)
  with Unwound_callback show thesis by (rule callback)
next
  case Ended
  with assms show thesis by simp
qed

lemma thread_step_frame:
  assumes "thread_step E fault p s = Some (q, s')"
  shows "threads s' = threads s" and "starters s' = starters s" and "stoppers s' = stoppers s" and "aborted s' = aborted s"
    and "queue_poisoned s \<Longrightarrow> queue_poisoned s'" and "\<not> running s \<Longrightarrow> \<not> running s'"
  using assms by (cases rule: thread_step_cases; auto dest: next_packet_frame)+

lemma thread_atE:
  assumes "thread_at E fault i s = Some s'"
  obtains p s1 where "i < length (threads s)" and "thread_step E fault (threads s ! i) s = Some (p, s1)"
    and "s' = s1\<lparr>threads := (threads s)[i := p]\<rparr>"
  using assms thread_step_frame(1) by (fastforce simp: thread_at_def split: if_splits)

lemma start_atE:
  assumes "start_at i s = Some s'"
  obtains r s1 where "i < length (starters s)" and "start_step (starters s ! i) s = Some (r, s1)"
    and "s' = s1\<lparr>starters := set_or_drop i r (starters s1)\<rparr>"
  using assms by (auto simp: start_at_def split: if_splits)

lemma stop_atE:
  assumes "stop_at i s = Some s'"
  obtains r s1 where "i < length (stoppers s)" and "stop_step (stoppers s ! i) s = Some (r, s1)"
    and "s' = s1\<lparr>stoppers := set_or_drop i r (stoppers s1)\<rparr>"
  using assms by (auto simp: stop_at_def split: if_splits)

lemma start_at_frame:
  "start_at i s = Some s' \<Longrightarrow> (threads s' = threads s \<or> threads s' = threads s @ [Head]) \<and> sent s' = sent s \<and>
     stoppers s' = stoppers s \<and> queue_poisoned s' = queue_poisoned s \<and> aborted s' = aborted s"
  by (auto elim!: start_atE start_step.elims split: if_splits)

lemma stop_at_frame:
  "stop_at i s = Some s' \<Longrightarrow> threads s' = threads s \<and> sent s' = sent s \<and> starters s' = starters s \<and>
     queue_poisoned s' = queue_poisoned s \<and> (\<not> running s \<longrightarrow> \<not> running s') \<and> (tx_callback s = None \<longrightarrow> tx_callback s' = None)"
  by (auto elim!: stop_atE stop_step.elims split: if_splits)

lemma queue_frame:
  "queue_real_message payload s = Done s' \<Longrightarrow> s' = s\<lparr>pending_payload := Some payload\<rparr> \<and> \<not> queue_poisoned s"
  by (auto simp: queue_real_message_def split: if_splits)

lemma start_check_frame: "start_check cb s = Some s' \<Longrightarrow> s' = s\<lparr>starters := Start_callback cb # starters s\<rparr> \<and> \<not> running s"
  by (auto simp: start_check_def split: if_splits)

text \<open>A property of the threads and of what was sent is an invariant when the thread steps keep it and a new thread has it.\<close>

lemma flow_invariant:
  assumes step: "flow_step E s s'" and "P (threads s) (sent s)" and "\<And>ts l. P ts l \<Longrightarrow> P (ts @ [Head]) l"
    and "\<And>fault i s'. P (threads s) (sent s) \<Longrightarrow> thread_at E fault i s = Some s' \<Longrightarrow> P (threads s') (sent s')"
  shows "P (threads s') (sent s')"
  using step
proof cases
  case (flow_start i)
  then show ?thesis using start_at_frame [of i s s'] assms(2,3) by auto
next
  case (flow_stop i)
  then show ?thesis using stop_at_frame [of i s s'] assms(2) by simp
qed (use assms(2,4) in \<open>auto dest: queue_frame start_check_frame\<close>)

end
