(* ===== verification/Flow_Props.thy ===== *)
theory Flow_Props
  imports Constant_Flow
begin

text \<open>
  What the interleavings of \<^verbatim>\<open>Constant_Flow\<close> guarantee: the size of the packets, one callback at a time, silence after a stop, the
  end of the sender threads; and what they do not: a second sender after a restart, and a flow that an entropy failure has
  disabled for good.
\<close>

subsection \<open>Packets and callbacks\<close>

definition packets_ok :: "phase list \<Rightarrow> (nat \<times> bytes) list \<Rightarrow> bool" where
  "packets_ok ts l \<longleftrightarrow> (\<forall>p \<in> set l. length (snd p) = 4096) \<and> (\<forall>pkt. Holding pkt \<in> set ts \<longrightarrow> length pkt = 4096) \<and>
     length (filter is_sending ts) \<le> 1"

lemma set_update_in: "x \<in> set (xs[i := y]) \<Longrightarrow> x = y \<or> x \<in> set xs"
  using set_update_subset_insert [of xs i y] by blast

lemma filter_update_none:
  "filter P (xs :: 'a list) = [] \<Longrightarrow> length (filter P (xs[i := y])) \<le> 1"
  by (induction xs arbitrary: i) (auto split: if_splits nat.split)

lemma filter_update_le: "\<not> P y \<Longrightarrow> length (filter P (xs[i := y])) \<le> length (filter P xs)"
  by (induction xs arbitrary: i) (auto split: if_splits nat.split simp: le_SucI)

lemma callback_free_filter: "callback_free s \<longleftrightarrow> filter is_sending (threads s) = []"
  by (auto simp: callback_free_def list_ex_iff filter_empty_conv)

lemma packets_ok_spawn: "packets_ok ts l \<Longrightarrow> packets_ok (ts @ [Head]) l"
  by (auto simp: packets_ok_def)

lemma thread_at_packets_ok:
  assumes ok: "packets_ok (threads s) (sent s)" and "thread_at E fault i s = Some s'"
  shows "packets_ok (threads s') (sent s')"
  using assms(2)
proof (rule thread_atE)
  fix p s1
  assume i: "i < length (threads s)" and st: "thread_step E fault (threads s ! i) s = Some (p, s1)"
    and s': "s' = s1\<lparr>threads := (threads s)[i := p]\<rparr>"
  have ti: "threads s ! i \<in> set (threads s)" using i by simp
  have sent: "\<forall>x \<in> set (sent s1). length (snd x) = 4096"
    using st ok ti by (cases rule: thread_step_cases) (auto simp: packets_ok_def dest!: next_packet_frame)
  have hold: "p = Holding pkt \<Longrightarrow> length pkt = 4096" for pkt
    using st next_packet_length [of E s] by (cases rule: thread_step_cases) (auto split: if_splits)
  have "length (filter is_sending ((threads s)[i := p])) \<le> 1"
  proof (cases "is_sending p")
    case True
    with st have "callback_free s" by (cases rule: thread_step_cases) (auto split: if_splits)
    then show ?thesis by (simp only: callback_free_filter filter_update_none)
  next
    case False
    then show ?thesis using filter_update_le [of is_sending p "threads s" i] ok by (simp add: packets_ok_def)
  qed
  with sent hold ok show ?thesis
    by (auto simp: s' packets_ok_def dest: set_update_in)
qed

lemma flow_packets_ok:
  assumes "flow_initial s" and "(flow_step E)\<^sup>*\<^sup>* s s'"
  shows "packets_ok (threads s') (sent s')"
  using assms(2)
proof (induction rule: rtranclp_induct)
  case base
  show ?case using assms(1) by (simp add: packets_ok_def flow_initial_def)
next
  case (step y z)
  from step.hyps(2) step.IH show ?case
    by (rule flow_invariant) (rule packets_ok_spawn thread_at_packets_ok, assumption+)+
qed

text \<open>C19: Every packet that reaches a callback has exactly 4096 bytes, and at most one sender is inside a callback at any time, in
  every interleaving of senders, queueing, starts and stops and whatever the lengths of the queued payloads.\<close>

theorem all_packets_full_size:
  assumes "flow_initial s" and "(flow_step E)\<^sup>*\<^sup>* s s'"
  shows "(\<forall>(cb, pkt) \<in> set (sent s'). length pkt = 4096) \<and> length (filter is_sending (threads s')) \<le> 1"
  using flow_packets_ok [OF assms] by (auto simp: packets_ok_def)

subsection \<open>Whole calls as runs\<close>

lemma do_thread:
  "\<not> aborted s \<Longrightarrow> i < length (threads s) \<Longrightarrow> thread_step E False (threads s ! i) s = Some (p, s1) \<Longrightarrow>
     s' = s1\<lparr>threads := (threads s1)[i := p]\<rparr> \<Longrightarrow> flow_step E s s'"
  by (rule flow_thread [of s E False i]) (simp_all add: thread_at_def)

lemma do_start:
  assumes "\<not> aborted s" and "\<not> running s" and "starters s = []" and "callback_free s"
  shows "(flow_step E)\<^sup>*\<^sup>* s (snd (start_constant_flow cb s))"
proof -
  let ?a = "s\<lparr>starters := [Start_callback cb]\<rparr>"
  let ?b = "s\<lparr>tx_callback := Some cb, starters := [Start_flag]\<rparr>"
  let ?c = "s\<lparr>tx_callback := Some cb, running := True, starters := [Start_spawn]\<rparr>"
  have "flow_step E s ?a" using assms by (intro flow_start_check [of s cb]) (simp_all add: start_check_def)
  moreover have "flow_step E ?a ?b"
    using assms by (intro flow_start [of _ 0]) (simp_all add: start_at_def callback_free_def)
  moreover have "flow_step E ?b ?c" using assms by (intro flow_start [of _ 0]) (simp_all add: start_at_def)
  moreover have "snd (start_constant_flow cb s) =
      s\<lparr>tx_callback := Some cb, running := True, threads := threads s @ [Head], starters := []\<rparr>"
    using assms by (cases s) (simp add: start_constant_flow_def)
  then have "flow_step E ?c (snd (start_constant_flow cb s))"
    using assms by (intro flow_start [of _ 0]) (simp_all add: start_at_def)
  ultimately show ?thesis by (meson rtranclp.rtrancl_into_rtrancl rtranclp.rtrancl_refl)
qed

lemma do_stop:
  assumes "\<not> aborted s" and "stoppers s = []" and "callback_free s" and "stop_constant_flow s = Done (r, s')"
  shows "(flow_step E)\<^sup>*\<^sup>* s s'"
proof -
  let ?a = "s\<lparr>stoppers := [Stop_flag]\<rparr>"
  let ?b = "s\<lparr>running := False, stoppers := [Stop_callback]\<rparr>"
  let ?c = "s\<lparr>running := False, tx_callback := None, stoppers := [Stop_queue]\<rparr>"
  have "flow_step E s ?a" using flow_stop_begin [OF assms(1), of E] assms(2) by simp
  moreover have "flow_step E ?a ?b" using assms by (intro flow_stop [of _ 0]) (simp_all add: stop_at_def)
  moreover have "flow_step E ?b ?c"
    using assms by (intro flow_stop [of _ 0]) (simp_all add: stop_at_def callback_free_def)
  moreover have "s' = s\<lparr>running := False, tx_callback := None, pending_payload := None, stoppers := []\<rparr>" and "\<not> queue_poisoned s"
    using assms(2,4) by (cases s; auto simp: stop_constant_flow_def split: if_splits)+
  then have "flow_step E ?c s'"
    using assms(1) by (intro flow_stop [of _ 0]) (simp_all add: stop_at_def)
  ultimately show ?thesis by (meson rtranclp.rtrancl_into_rtrancl rtranclp.rtrancl_refl)
qed

subsection \<open>Silence after a stop\<close>

definition quiet :: "flow_globals \<Rightarrow> bool" where
  "quiet s \<longleftrightarrow> tx_callback s = None \<and> callback_free s \<and> starters s = []"

lemma quiet_thread:
  assumes "thread_at E fault i y = Some z" and "quiet y"
  shows "sent z = sent y \<and> quiet z"
  using assms(1)
proof (rule thread_atE)
  fix p s1
  assume st: "thread_step E fault (threads y ! i) y = Some (p, s1)" and z: "z = s1\<lparr>threads := (threads y)[i := p]\<rparr>"
  have p: "\<not> is_sending p" "sent s1 = sent y" "tx_callback s1 = None" "starters s1 = []"
    using st assms(2) by (cases rule: thread_step_cases; auto simp: quiet_def split: if_splits dest: next_packet_frame)+
  have "filter is_sending ((threads y)[i := p]) = []"
    using filter_update_le [of is_sending p "threads y" i, OF p(1)] assms(2) by (simp add: quiet_def callback_free_filter)
  with p show ?thesis by (simp add: z quiet_def callback_free_filter)
qed

lemma quiet_step:
  assumes "flow_step E y z" and "quiet y" and "starters z = []"
  shows "sent z = sent y \<and> quiet z"
  using assms(1)
proof cases
  case (flow_thread fault i)
  then show ?thesis using quiet_thread assms(2) by blast
next
  case (flow_start i)
  then show ?thesis using assms(2) by (simp add: quiet_def start_at_def)
next
  case (flow_stop i)
  then show ?thesis using assms(2) stop_at_frame [of i y z] by (simp add: quiet_def callback_free_def)
qed (use assms(2,3) in \<open>auto simp: quiet_def callback_free_def dest: queue_frame start_check_frame\<close>)

text \<open>C18: Stop waits for a running callback, and from its access to the callback on nothing is sent until a start is begun: whatever
  the sender threads do that are still asleep or hold a packet, and whatever is queued, no packet reaches a callback and no
  sender is inside one, so the caller may discard the callback once stop has returned.\<close>

theorem silent_after_stop:
  assumes "starters s = []" and "i < length (stoppers s)" and "stoppers s ! i = Stop_callback" and "stop_at i s = Some s1"
    and "(\<lambda>a b. flow_step E a b \<and> starters b = [])\<^sup>*\<^sup>* s1 s'"
  shows "sent s' = sent s \<and> tx_callback s' = None \<and> \<not> list_ex is_sending (threads s')"
proof -
  have "quiet s1" and "sent s1 = sent s"
    using assms(1-4) by (auto simp: stop_at_def quiet_def callback_free_def split: if_splits)
  from assms(5) have "quiet s' \<and> sent s' = sent s"
  proof (induction rule: rtranclp_induct)
    case base
    show ?case using \<open>quiet s1\<close> \<open>sent s1 = sent s\<close> by simp
  next
    case (step y z)
    then show ?case using quiet_step [of E y z] by simp
  qed
  then show ?thesis by (simp add: quiet_def callback_free_def)
qed

text \<open>A sender that holds a packet when stop runs.\<close>

definition caught_sender :: flow_globals where
  "caught_sender = demo_flow\<lparr>tx_callback := Some 7, threads := [Holding (zeros 4096)], stoppers := [Stop_callback]\<rparr>"

lemmas caught_defs = caught_sender_def demo_flow_def world.extend_def flow_globals.fields_def

theorem silent_after_stop_witness:
  "sent (caught_sender\<lparr>tx_callback := None, stoppers := [Stop_queue], threads := [Head]\<rparr>) = []"
proof -
  let ?a = "caught_sender\<lparr>tx_callback := None, stoppers := [Stop_queue]\<rparr>"
  let ?b = "caught_sender\<lparr>tx_callback := None, stoppers := [Stop_queue], threads := [Head]\<rparr>"
  have s: "starters caught_sender = []" "sent caught_sender = []" "0 < length (stoppers caught_sender)"
    "stoppers caught_sender ! 0 = Stop_callback" "stop_at 0 caught_sender = Some ?a"
    by (simp_all add: caught_defs stop_at_def callback_free_def)
  have "flow_step demo_env ?a ?b"
    by (rule do_thread [of _ 0 _ Head ?a]) (simp_all add: caught_defs callback_free_def)
  then have "(\<lambda>a b. flow_step demo_env a b \<and> starters b = [])\<^sup>*\<^sup>* ?a ?b" using s(1) by auto
  from silent_after_stop [OF s(1,3,4,5) this] s(2) show ?thesis by simp
qed

subsection \<open>The senders end\<close>

text \<open>How many steps a sender has before it ends once the flag is cleared.\<close>

fun work :: "phase \<Rightarrow> nat" where
  "work Head = 1"
| "work Sleeping = 1"
| "work Awake = 4"
| "work (Holding pkt) = 3"
| "work (Sending cb pkt) = 2"
| "work Unwound_flag = 2"
| "work Unwound_callback = 1"
| "work Ended = 0"

definition total_work :: "flow_globals \<Rightarrow> nat" where
  "total_work s = sum_list (map work (threads s))"

lemma thread_step_work: "thread_step E fault p s = Some (q, s') \<Longrightarrow> \<not> running s \<Longrightarrow> work q < work p"
  by (cases rule: thread_step_cases) auto

lemma thread_at_work:
  assumes "thread_at E fault i s = Some s'" and "\<not> running s"
  shows "total_work s' < total_work s"
  using assms(1)
proof (rule thread_atE)
  fix p s1
  assume i: "i < length (threads s)" and st: "thread_step E fault (threads s ! i) s = Some (p, s1)"
    and s': "s' = s1\<lparr>threads := (threads s)[i := p]\<rparr>"
  have "total_work s' = total_work s + work p - work (threads s ! i)"
    using i by (simp add: s' total_work_def map_update sum_list_update)
  moreover have "work (threads s ! i) \<le> total_work s"
    using i elem_le_sum_list [of i "map work (threads s)"] by (simp add: total_work_def)
  ultimately show ?thesis using thread_step_work [OF st assms(2)] by simp
qed

lemma stopped_step:
  assumes "flow_step E y z" and "\<not> running y" and "starters y = []" and "starters z = []"
  shows "\<not> running z \<and> (threads z = threads y \<or> total_work z < total_work y)"
  using assms(1)
proof cases
  case (flow_thread fault i)
  then show ?thesis
    using thread_at_work [of E fault i y z] assms(2) thread_step_frame(6) by (auto elim!: thread_atE)
next
  case (flow_start i)
  then show ?thesis using assms(3) by (simp add: start_at_def)
next
  case (flow_stop i)
  then show ?thesis using assms(2) stop_at_frame [of i y z] by simp
qed (use assms(2,4) in \<open>auto dest: queue_frame start_check_frame\<close>)

definition enabled :: "env \<Rightarrow> nat \<Rightarrow> flow_globals \<Rightarrow> bool" where
  "enabled E i s \<longleftrightarrow> \<not> aborted s \<and> thread_at E False i s \<noteq> None"

text \<open>An infinite run, which may stutter, in which a sender that stays able to move does move: it wakes, and its callback returns.\<close>

definition fair_run :: "env \<Rightarrow> (nat \<Rightarrow> flow_globals) \<Rightarrow> bool" where
  "fair_run E f \<longleftrightarrow> (\<forall>k. flow_step E (f k) (f (Suc k)) \<or> f (Suc k) = f k) \<and>
     (\<forall>i k. (\<forall>j\<ge>k. enabled E i (f j)) \<longrightarrow> (\<exists>j\<ge>k. threads (f (Suc j)) ! i \<noteq> threads (f j) ! i))"

lemma stopped_run:
  assumes "fair_run E f" and "\<not> running (f 0)" and "\<And>k. starters (f k) = []"
  shows "\<not> running (f k) \<and> (threads (f (Suc k)) = threads (f k) \<or> total_work (f (Suc k)) < total_work (f k))"
proof -
  have step: "flow_step E (f k) (f (Suc k)) \<or> f (Suc k) = f k" for k using assms(1) by (simp add: fair_run_def)
  have off: "\<not> running (f k)" for k
    by (induction k) (use assms(2) step stopped_step [OF _ _ assms(3,3)] in metis)+
  show ?thesis using step [of k] off [of k] stopped_step [OF _ off assms(3,3), of E k "Suc k"] by auto
qed

lemma aborted_forever: "fair_run E f \<Longrightarrow> aborted (f k) \<Longrightarrow> aborted (f (k + n))"
proof (induction n)
  case (Suc n)
  then have "flow_step E (f (k + n)) (f (k + Suc n)) \<or> f (k + Suc n) = f (k + n)" by (simp add: fair_run_def)
  with Suc show ?case by (auto elim: flow_step.cases)
qed simp

lemma enabled_if_free:
  assumes "callback_free s" and "\<not> aborted s" and "i < length (threads s)" and "threads s ! i \<noteq> Ended"
  shows "enabled E i s"
  using assms by (cases "threads s ! i") (auto simp: enabled_def thread_at_def split: option.splits prod.splits)

lemma enabled_if_sending: "is_sending (threads s ! i) \<Longrightarrow> \<not> aborted s \<Longrightarrow> i < length (threads s) \<Longrightarrow> enabled E i s"
  by (cases "threads s ! i") (auto simp: enabled_def thread_at_def)

text \<open>C17: Once stopped, the senders end: in every fair run in which the flag is cleared and no start is begun, from some point on
  every sender thread has ended, or the process was aborted.\<close>

theorem senders_end:
  assumes "fair_run E f" and "\<not> running (f 0)" and "\<And>k. starters (f k) = []"
  shows "\<exists>K. \<forall>k\<ge>K. aborted (f k) \<or> (\<forall>p \<in> set (threads (f k)). p = Ended)"
proof (cases "\<exists>k. aborted (f k)")
  case True
  then show ?thesis using aborted_forever [OF assms(1)] by (metis le_Suc_ex)
next
  case False
  then have live: "\<not> aborted (f k)" for k by blast
  obtain K where least: "total_work (f K) \<le> total_work (f k)" for k
    using ex_has_least_nat [of "\<lambda>k. True" 0 "\<lambda>k. total_work (f k)"] by blast
  have const: "threads (f (K + n)) = threads (f K)" for n
  proof (induction n)
    case (Suc n)
    from stopped_run [OF assms, of "K + n"] least [of "Suc (K + n)"] Suc show ?case by (auto simp: total_work_def)
  qed simp
  have stays: "\<exists>j\<ge>K. \<not> enabled E i (f j)" for i
    using assms(1) const unfolding fair_run_def by (metis add_Suc_right le_Suc_ex)
  have free: "callback_free (f K)"
  proof (rule ccontr)
    assume "\<not> callback_free (f K)"
    then obtain i where "i < length (threads (f K))" "is_sending (threads (f K) ! i)"
      by (auto simp: callback_free_def list_ex_iff in_set_conv_nth)
    then have "enabled E i (f (K + n))" for n by (intro enabled_if_sending) (simp_all add: const live)
    with stays [of i] show False by (metis le_Suc_ex)
  qed
  have "threads (f K) ! i = Ended" if "i < length (threads (f K))" for i
  proof (rule ccontr)
    assume "threads (f K) ! i \<noteq> Ended"
    then have "enabled E i (f (K + n))" for n
      using that free by (intro enabled_if_free) (simp_all add: const live callback_free_def)
    with stays [of i] show False by (metis le_Suc_ex)
  qed
  then have "\<forall>p \<in> set (threads (f (K + n))). p = Ended" for n by (auto simp: const in_set_conv_nth)
  then show ?thesis by (metis le_Suc_ex)
qed

definition demo_run :: "nat \<Rightarrow> flow_globals" where
  "demo_run k = (if k = 0 then demo_flow\<lparr>threads := [Sleeping]\<rparr> else demo_flow\<lparr>threads := [Ended]\<rparr>)"

lemma demo_run_fair: "fair_run demo_env demo_run"
proof -
  have "flow_step demo_env (demo_run 0) (demo_run (Suc 0))"
    by (rule do_thread [of _ 0 _ Ended "demo_run 0"])
      (simp_all add: demo_run_def demo_flow_def world.extend_def flow_globals.fields_def)
  then have "flow_step demo_env (demo_run k) (demo_run (Suc k)) \<or> demo_run (Suc k) = demo_run k" for k
    by (cases k) (simp_all add: demo_run_def)
  moreover have "\<not> enabled demo_env i (demo_run (Suc j))" for i j
    by (simp add: enabled_def thread_at_def demo_run_def)
  ultimately show ?thesis unfolding fair_run_def by (meson le_SucI order_refl)
qed

theorem senders_end_witness:
  "\<exists>K. \<forall>k\<ge>K. aborted (demo_run k) \<or> (\<forall>p \<in> set (threads (demo_run k)). p = Ended)"
  by (rule senders_end [OF demo_run_fair])
    (simp_all add: demo_run_def demo_flow_def world.extend_def flow_globals.fields_def)

subsection \<open>A second sender\<close>

text \<open>C38: Stopping and starting again while a sender sleeps leaves two senders: from the initial state the program can reach a state
  in which two threads are past the loop's check and the flow runs, although a start is refused while the flow runs.\<close>

theorem restart_doubles_the_senders:
  assumes "flow_initial s"
  shows "\<exists>s'. (flow_step E)\<^sup>*\<^sup>* s s' \<and> running s' \<and> threads s' = [Sleeping, Sleeping] \<and> fst (start_constant_flow cb s') = 1"
proof -
  have s: "\<not> running s" "threads s = []" "starters s = []" "stoppers s = []" "\<not> aborted s" "\<not> queue_poisoned s"
    using assms by (simp_all add: flow_initial_def)
  define s1 where "s1 = snd (start_constant_flow cb s)"
  define s2 where "s2 = s1\<lparr>threads := [Sleeping]\<rparr>"
  define s3 where "s3 = s2\<lparr>running := False, tx_callback := None, pending_payload := None\<rparr>"
  define s4 where "s4 = snd (start_constant_flow cb s3)"
  define s5 where "s5 = s4\<lparr>threads := [Sleeping, Sleeping]\<rparr>"
  have f1: "running s1" "threads s1 = [Head]" "starters s1 = []" "stoppers s1 = []" "\<not> aborted s1" "\<not> queue_poisoned s1"
    using s by (simp_all add: s1_def start_constant_flow_def)
  have f3: "\<not> running s3" "threads s3 = [Sleeping]" "starters s3 = []" "\<not> aborted s3"
    using f1 by (simp_all add: s3_def s2_def)
  have f4: "running s4" "threads s4 = [Sleeping, Head]" "\<not> aborted s4"
    using f3 by (simp_all add: s4_def start_constant_flow_def)
  have "(flow_step E)\<^sup>*\<^sup>* s s1"
    unfolding s1_def by (rule do_start) (simp_all add: s callback_free_def)
  also have "flow_step E s1 s2" by (rule do_thread [of _ 0 _ Sleeping s1]) (simp_all add: f1 s2_def)
  also have "(flow_step E)\<^sup>*\<^sup>* s2 s3"
    by (rule do_stop [of _ 0]) (simp_all add: s2_def f1 callback_free_def stop_constant_flow_def s3_def)
  also have "(flow_step E)\<^sup>*\<^sup>* s3 s4" unfolding s4_def by (rule do_start) (simp_all add: f3 callback_free_def)
  also have "flow_step E s4 s5" by (rule do_thread [of _ 1 _ Sleeping s4]) (simp_all add: f4 s5_def)
  finally have "(flow_step E)\<^sup>*\<^sup>* s s5" .
  moreover have "running s5" "threads s5 = [Sleeping, Sleeping]" using f4 by (simp_all add: s5_def)
  ultimately show ?thesis by (intro exI [of _ s5]) (simp add: start_constant_flow_def)
qed

theorem restart_doubles_the_senders_witness:
  "\<exists>s'. (flow_step demo_env)\<^sup>*\<^sup>* demo_flow s' \<and> threads s' = [Sleeping, Sleeping]"
  using restart_doubles_the_senders [OF demo_flow_initial] by blast

subsection \<open>Entropy failure\<close>

definition disabled :: "flow_globals \<Rightarrow> bool" where
  "disabled s \<longleftrightarrow> queue_poisoned s \<and> (\<forall>pkt. Holding pkt \<notin> set (threads s))"

lemma disabled_step:
  assumes "flow_step E y z" and "disabled y"
  shows "disabled z \<and> sent z = sent y"
  using assms(1)
proof cases
  case (flow_thread fault i)
  from flow_thread(2) show ?thesis
  proof (rule thread_atE)
    fix p s1
    assume i: "i < length (threads y)" and st: "thread_step E fault (threads y ! i) y = Some (p, s1)"
      and z: "z = s1\<lparr>threads := (threads y)[i := p]\<rparr>"
    have "threads y ! i \<in> set (threads y)" using i by simp
    with st assms(2) have "sent s1 = sent y \<and> queue_poisoned s1 \<and> (\<forall>pkt. p \<noteq> Holding pkt)"
      by (cases rule: thread_step_cases) (auto simp: disabled_def split: if_splits)
    with assms(2) show ?thesis by (auto simp: z disabled_def dest: set_update_in)
  qed
next
  case (flow_start i)
  then show ?thesis using assms(2) start_at_frame [of i y z] by (auto simp: disabled_def)
next
  case (flow_stop i)
  then show ?thesis using assms(2) stop_at_frame [of i y z] by (auto simp: disabled_def)
qed (use assms(2) in \<open>auto simp: disabled_def dest: queue_frame start_check_frame\<close>)


text \<open>The failure happens in a run: the only sender wakes and the generator fails.\<close>

lemma entropy_failure_reachable:
  assumes "flow_initial s"
  shows "\<exists>s'. (flow_step E)\<^sup>*\<^sup>* s s' \<and> queue_poisoned s' \<and> threads s' = [Unwound_flag]"
proof -
  have s: "\<not> running s" "threads s = []" "starters s = []" "\<not> aborted s" "\<not> queue_poisoned s" "pending_payload s = None"
    using assms by (simp_all add: flow_initial_def)
  define s1 where "s1 = snd (start_constant_flow 7 s)"
  define s2 where "s2 = s1\<lparr>threads := [Sleeping]\<rparr>"
  define s3 where "s3 = s1\<lparr>threads := [Awake]\<rparr>"
  define s4 where "s4 = s3\<lparr>pending_payload := None, queue_poisoned := True, threads := [Unwound_flag]\<rparr>"
  have f1: "running s1" "threads s1 = [Head]" "\<not> aborted s1" "\<not> queue_poisoned s1" "pending_payload s1 = None"
    using s by (simp_all add: s1_def start_constant_flow_def)
  have "(flow_step E)\<^sup>*\<^sup>* s s1"
    unfolding s1_def by (rule do_start) (simp_all add: s callback_free_def)
  also have "flow_step E s1 s2" by (rule do_thread [of _ 0 _ Sleeping s1]) (simp_all add: f1 s2_def)
  also have "flow_step E s2 s3" by (rule do_thread [of _ 0 _ Awake s2]) (simp_all add: f1 s2_def s3_def)
  also have "flow_step E s3 s4"
    by (rule flow_thread [of _ _ True 0]) (simp_all add: f1 s3_def s4_def thread_at_def needs_noise_def)
  finally show ?thesis by (intro exI [of _ s4]) (simp add: s4_def)
qed


subsection \<open>Packets carry no length\<close>

lemma packet_is_ambiguous:
  assumes "length data < 4096" and "\<not> queue_poisoned s"
    and "queue_real_message data s = Done t" and "next_packet E t = (pkt, s')"
  shows "take (length data) pkt = data \<and> pkt \<noteq> data \<and> fst (next_packet E (t\<lparr>pending_payload := Some pkt\<rparr>)) = pkt"
proof -
  have t: "t = s\<lparr>pending_payload := Some data\<rparr>" using assms(2,3) by (simp add: queue_real_message_def)
  have "length pkt = 4096" using next_packet_length [of E t] assms(4) by simp
  moreover from assms(1,4) have "take (length data) pkt = data"
    by (auto simp: t next_packet_def PACKET_SIZE_def Let_def split: prod.splits)
  ultimately show ?thesis
    using assms(1) by (auto simp: next_packet_def PACKET_SIZE_def fill_bytes_def Let_def)
qed

lemma demo_send: "\<exists>s' pkt. (flow_step demo_env)\<^sup>*\<^sup>* demo_flow s' \<and> (7, pkt) \<in> set (sent s')"
proof -
  have s: "\<not> running demo_flow" "threads demo_flow = []" "starters demo_flow = []" "\<not> aborted demo_flow" "\<not> queue_poisoned demo_flow"
    using demo_flow_initial by (simp_all add: flow_initial_def)
  define s1 where "s1 = snd (start_constant_flow 7 demo_flow)"
  define s2 where "s2 = s1\<lparr>threads := [Sleeping]\<rparr>"
  define s3 where "s3 = s1\<lparr>threads := [Awake]\<rparr>"
  obtain pkt u where p: "next_packet demo_env s3 = (pkt, u)" by force
  define s4 where "s4 = u\<lparr>threads := [Holding pkt]\<rparr>"
  define s5 where "s5 = s4\<lparr>sent := (7, pkt) # sent s4, threads := [Sending 7 pkt]\<rparr>"
  have f1: "running s1" "threads s1 = [Head]" "tx_callback s1 = Some 7" "\<not> aborted s1" "\<not> queue_poisoned s1"
    using s by (simp_all add: s1_def start_constant_flow_def)
  have f3: "threads s3 = [Awake]" "\<not> aborted s3" "\<not> queue_poisoned s3" using f1 by (simp_all add: s3_def)
  have f4: "tx_callback s4 = Some 7" "threads u = [Awake]" "\<not> aborted s4" "threads s4 = [Holding pkt]"
    using next_packet_frame [OF p] f1 by (simp_all add: s4_def s3_def)
  have "(flow_step demo_env)\<^sup>*\<^sup>* demo_flow s1"
    unfolding s1_def by (rule do_start) (simp_all add: s callback_free_def)
  also have "flow_step demo_env s1 s2" by (rule do_thread [of _ 0 _ Sleeping s1]) (simp_all add: f1 s2_def)
  also have "flow_step demo_env s2 s3" by (rule do_thread [of _ 0 _ Awake s2]) (simp_all add: f1 s2_def s3_def)
  also have "flow_step demo_env s3 s4"
    by (rule do_thread [of _ 0 _ "Holding pkt" u]) (simp_all add: f3 p f4(2) s4_def)
  also have "flow_step demo_env s4 s5"
    by (rule do_thread [of _ 0 _ "Sending 7 pkt" "s4\<lparr>sent := (7, pkt) # sent s4\<rparr>"]) (simp_all add: f4 s5_def callback_free_def)
  finally have "(flow_step demo_env)\<^sup>*\<^sup>* demo_flow s5" .
  moreover have "(7, pkt) \<in> set (sent s5)" by (simp add: s5_def)
  ultimately show ?thesis by blast
qed

theorem all_packets_full_size_witness:
  "\<exists>s' pkt. (flow_step demo_env)\<^sup>*\<^sup>* demo_flow s' \<and> (7, pkt) \<in> set (sent s') \<and> length pkt = 4096"
  using demo_send all_packets_full_size [OF demo_flow_initial] by fast

end
