(* ===== verification/Disk_Wipe.thy ===== *)
theory Disk_Wipe
  imports Volume_Store
begin

text \<open>
  \<^verbatim>\<open>disk_wipe.rs\<close>: overwriting the container with random bytes, then with zeros, and truncating it.  The two
  overwriting loops recurse on the number of bytes that remain.
\<close>

definition WIPE_CHUNK :: nat where "WIPE_CHUNK = 4096"

function random_pass :: "env \<Rightarrow> nat \<Rightarrow> nat \<Rightarrow> (unit, 'w) io" where
  "random_pass E file remaining w =
     (if remaining = 0 then (Inr (), w)
      else
        let tk = min remaining WIPE_CHUNK;
            (chunk, w) = fill_bytes E tk w
        in io_bind (write_all E file chunk) (\<lambda>_. random_pass E file (remaining - tk)) w)"
  by pat_completeness auto
termination
  by (relation "measure (\<lambda>(E, file, remaining, w). remaining)") (auto simp: WIPE_CHUNK_def)

function zero_pass :: "env \<Rightarrow> nat \<Rightarrow> nat \<Rightarrow> (unit, 'w) io" where
  "zero_pass E file remaining w =
     (if remaining = 0 then (Inr (), w)
      else
        let tk = min remaining WIPE_CHUNK
        in io_bind (write_all E file (take tk (zeros WIPE_CHUNK))) (\<lambda>_. zero_pass E file (remaining - tk)) w)"
  by pat_completeness auto
termination
  by (relation "measure (\<lambda>(E, file, remaining, w). remaining)") (auto simp: WIPE_CHUNK_def)

declare random_pass.simps [simp del] zero_pass.simps [simp del]

definition overwrite_twice :: "env \<Rightarrow> nat \<Rightarrow> nat \<Rightarrow> (unit, 'w) io" where
  "overwrite_twice E file file_size =
     io_bind (seek_start E file 0) (\<lambda>_.
     io_bind (random_pass E file file_size) (\<lambda>_.
     io_bind (sync_all E file) (\<lambda>_.
     io_bind (seek_start E file 0) (\<lambda>_.
     io_bind (zero_pass E file file_size) (\<lambda>_.
     sync_all E file)))))"

definition purge_entire_vault :: "env \<Rightarrow> bytes \<Rightarrow> (unit, 'w) io" where
  "purge_entire_vault E file_path =
     io_bind (fs_len E file_path) (\<lambda>file_size.
     if file_size = 0 then io_return ()
     else
       io_bind (open_rw E file_path) (\<lambda>file.
       io_bind (overwrite_twice E file file_size) (\<lambda>_.
       io_bind (set_len E file 0) (\<lambda>_.
       io_bind (sync_all E file) (\<lambda>_.
       io_return ())))))"

subsection \<open>Calls that returned\<close>

lemma io_bind_success: "io_bind m f w = (Inr x, w') \<longleftrightarrow> (\<exists>y w1. m w = (Inr y, w1) \<and> f y w1 = (Inr x, w'))"
  by (auto simp: io_bind_def split: prod.splits sum.splits)

lemma os_call_success: "os_call E f w = (Inr x, w') \<Longrightarrow> f (os_tick w) = (Inr x, w')"
  by (auto simp: os_call_def split: option.splits)

lemma write_success: "write_all E fd bs w = (Inr x, w') \<Longrightarrow> w' = put_bytes E fd bs (os_tick w)"
  by (auto simp: write_all_def split: option.splits)

text \<open>Same file behind the descriptor.\<close>

abbreviation same_file :: "nat \<Rightarrow> 'w world_scheme \<Rightarrow> 'w world_scheme \<Rightarrow> bool" where
  "same_file fd w w' \<equiv> fd_ino (fds w' fd) = fd_ino (fds w fd) \<and> paths w' = paths w"

lemma put_bytes_same_file: "same_file fd w (put_bytes E fd bs w)"
  by (simp add: put_bytes_def Let_def set_pos_def upd_inode_def)

lemma seek_success:
  "seek_start E fd off w = (Inr x, w') \<Longrightarrow>
     file_of fd w' = file_of fd w \<and> fd_pos (fds w' fd) = off \<and> same_file fd w w'"
  by (auto dest!: os_call_success simp: seek_start_def set_pos_def os_tick_def file_of_def)

lemma sync_success:
  "sync_all E fd w = (Inr x, w') \<Longrightarrow>
     file_of fd w' = file_of fd w \<and> durable_of fd w' = file_of fd w \<and> same_file fd w w'"
  by (auto dest!: os_call_success simp: sync_all_def upd_inode_def os_tick_def file_of_def durable_of_def)

lemma set_len_success:
  "set_len E fd n w = (Inr x, w') \<Longrightarrow>
     file_of fd w' = take n (file_of fd w) @ zeros (n - length (file_of fd w)) \<and> same_file fd w w'"
  by (auto dest!: os_call_success simp: set_len_def upd_inode_def os_tick_def file_of_def)

lemma overwrite_step:
  fixes E w
  assumes "fd_pos (fds w fd) + length bs \<le> length (file_of fd w)"
  defines "w' \<equiv> put_bytes E fd bs (os_tick w)"
  shows "file_of fd w' = copy_at (fd_pos (fds w fd)) bs (file_of fd w) \<and> same_file fd w w' \<and>
    fd_pos (fds w' fd) = fd_pos (fds w fd) + length bs"
proof -
  have "file_of fd w' = copy_at (fd_pos (fds w fd)) bs (file_of fd w)"
    using assms(1) by (auto simp: w'_def frame_simps store_at_in_range) (simp add: copy_at_def)
  moreover have "same_file fd w w'" using put_bytes_same_file [where w = "os_tick w" and fd = fd] by (simp add: w'_def os_tick_def)
  ultimately show ?thesis by (simp add: w'_def frame_simps)
qed

lemma random_pass_success:
  "random_pass E fd n w = (Inr x, w') \<Longrightarrow> fd_pos (fds w fd) + n \<le> length (file_of fd w) \<Longrightarrow>
     length (file_of fd w') = length (file_of fd w) \<and> same_file fd w w'"
proof (induction E fd n w rule: random_pass.induct)
  case (1 E fd n w)
  show ?case
  proof (cases "n = 0")
    case True
    with 1(2) show ?thesis by (simp add: random_pass.simps)
  next
    case False
    let ?k = "min n WIPE_CHUNK"
    obtain chunk w1 where c: "fill_bytes E ?k w = (chunk, w1)" by force
    have lc: "length chunk = ?k" using c by (rule fill_bytes_length)
    have w1: "file_of fd w1 = file_of fd w" "fds w1 = fds w" "paths w1 = paths w"
      using c by (auto simp: fill_bytes_def file_of_def)
    from 1(2) False c obtain w2 where w2: "w2 = put_bytes E fd chunk (os_tick w1)"
      "random_pass E fd (n - ?k) w2 = (Inr x, w')"
      by (subst (asm) random_pass.simps) (auto simp: io_bind_success Let_def dest: write_success)
    have step: "file_of fd w2 = copy_at (fd_pos (fds w fd)) chunk (file_of fd w)" "same_file fd w w2"
      "fd_pos (fds w2 fd) = fd_pos (fds w fd) + ?k"
      using overwrite_step [of w1 fd chunk E] 1(3) w1 lc w2(1) by auto
    then have "length (file_of fd w2) = length (file_of fd w)"
      using 1(3) lc by (simp add: length_copy_at)
    with 1(1) [OF False refl refl c [symmetric]] w2(2) step 1(3) show ?thesis by auto
  qed
qed

lemma zero_pass_success:
  "zero_pass E fd n w = (Inr x, w') \<Longrightarrow> fd_pos (fds w fd) + n \<le> length (file_of fd w) \<Longrightarrow>
     file_of fd w' = copy_at (fd_pos (fds w fd)) (zeros n) (file_of fd w) \<and> same_file fd w w'"
proof (induction E fd n w rule: zero_pass.induct)
  case (1 E fd n w)
  show ?case
  proof (cases "n = 0")
    case True
    with 1(2) show ?thesis by (simp add: zero_pass.simps copy_at_def)
  next
    case False
    let ?k = "min n WIPE_CHUNK" and ?p = "fd_pos (fds w fd)"
    have z: "take ?k (zeros WIPE_CHUNK) = zeros ?k" by simp
    from 1(2) False obtain w2 where w2: "w2 = put_bytes E fd (zeros ?k) (os_tick w)"
      "zero_pass E fd (n - ?k) w2 = (Inr x, w')"
      by (subst (asm) zero_pass.simps) (auto simp: io_bind_success Let_def z dest: write_success)
    have step: "file_of fd w2 = copy_at ?p (zeros ?k) (file_of fd w)" "same_file fd w w2" "fd_pos (fds w2 fd) = ?p + ?k"
      using overwrite_step [of w fd "zeros ?k" E] 1(3) w2(1) by auto
    then have "length (file_of fd w2) = length (file_of fd w)"
      using 1(3) by (simp add: length_copy_at)
    with 1(1) [OF False refl] w2(2) step 1(3)
    have "file_of fd w' = copy_at (?p + ?k) (zeros (n - ?k)) (copy_at ?p (zeros ?k) (file_of fd w))" "same_file fd w w'"
      by auto
    moreover have "zeros ?k @ zeros (n - ?k) = zeros n" by (simp flip: replicate_add)
    ultimately show ?thesis
      using copy_at_append [of ?p "zeros ?k" "zeros (n - ?k)" "file_of fd w"] 1(3) by simp
  qed
qed

lemma overwrite_twice_success:
  assumes "overwrite_twice E fd n w = (Inr x, w')" and "n = length (file_of fd w)"
  shows "file_of fd w' = zeros n \<and> durable_of fd w' = zeros n \<and> same_file fd w w'"
proof -
  from assms(1) obtain w1 w2 w3 w4 w5 where
    s: "seek_start E fd 0 w = (Inr (), w1)" "random_pass E fd n w1 = (Inr (), w2)" "sync_all E fd w2 = (Inr (), w3)"
       "seek_start E fd 0 w3 = (Inr (), w4)" "zero_pass E fd n w4 = (Inr (), w5)" "sync_all E fd w5 = (Inr x, w')"
    unfolding overwrite_twice_def io_bind_success by auto
  note 1 = seek_success [OF s(1)]
  with random_pass_success [OF s(2)] assms(2) have 2: "length (file_of fd w2) = n" "same_file fd w1 w2" by auto
  note 3 = sync_success [OF s(3)] and 4 = seek_success [OF s(4)]
  from 2 3 4 have "fd_pos (fds w4 fd) = 0" "length (file_of fd w4) = n" by auto
  with zero_pass_success [OF s(5)] have "file_of fd w5 = zeros n" "same_file fd w4 w5"
    by (auto simp: copy_at_def)
  with sync_success [OF s(6)] 1 2 3 4 show ?thesis by auto
qed

lemma passes_reliable:
  assumes "os_reliable E"
  shows "\<exists>w'. random_pass E fd n w = (Inr (), w')" and "\<exists>w'. zero_pass E fd n w = (Inr (), w')"
proof -
  show "\<exists>w'. random_pass E fd n w = (Inr (), w')"
    using assms by (induction E fd n w rule: random_pass.induct)
      (subst random_pass.simps, auto simp: io_bind_def write_ok Let_def split: prod.split)
  show "\<exists>w'. zero_pass E fd n w = (Inr (), w')"
    using assms by (induction E fd n w rule: zero_pass.induct)
      (subst zero_pass.simps, auto simp: io_bind_def write_ok Let_def)
qed

lemma purge_reliable:
  assumes "os_reliable E" and "0 \<notin> set path" and "paths w path = Some i"
  shows "\<exists>w'. purge_entire_vault E path w = (Inr (), w')"
proof -
  have "\<exists>w'. sync_all E fd u = (Inr (), w')" "\<exists>w'. set_len E fd n u = (Inr (), w')" for fd n and u :: "'a world_scheme"
    using assms(1) by (simp_all add: sync_all_def set_len_def os_call_reliable Let_def)
  then have "\<exists>w'. overwrite_twice E fd n u = (Inr (), w')" for fd n and u :: "'a world_scheme"
    unfolding overwrite_twice_def io_bind_success using passes_reliable [OF assms(1)] seek_ok [OF assms(1)] by metis
  moreover have "\<exists>fd w'. open_rw E path u = (Inr fd, w')" if "paths u path = Some i" for u :: "'a world_scheme"
    using assms(1,2) that by (simp add: open_rw_def os_call_reliable io_bind_def lookup_path_def new_fd_def os_tick_def)
  moreover have "fs_len E path w = (Inr (length (content (inodes w i))), os_tick w)"
    using assms by (simp add: fs_len_def os_call_reliable io_bind_def lookup_path_def os_tick_def)
  moreover have "paths (os_tick w) path = Some i" using assms(3) by (simp add: os_tick_def)
  ultimately show ?thesis
    using \<open>\<And>u fd. \<exists>w'. sync_all E fd u = (Inr (), w')\<close> \<open>\<And>u n fd. \<exists>w'. set_len E fd n u = (Inr (), w')\<close>
    unfolding purge_entire_vault_def
    by (cases "content (inodes w i) = []") (simp_all add: io_bind_success io_return_def, metis)
qed

lemma purge_stages:
  assumes "purge_entire_vault E path w = (Inr (), w')" and "paths w path = Some i" and "content (inodes w i) \<noteq> []"
  obtains fd w1 w2 w3 where "fd_ino (fds w1 fd) = i" "inodes w1 = inodes w" "paths w1 = paths w"
    "overwrite_twice E fd (length (content (inodes w i))) w1 = (Inr (), w2)"
    "set_len E fd 0 w2 = (Inr (), w3)" "sync_all E fd w3 = (Inr (), w')"
proof -
  from assms(1) obtain n wa where a: "fs_len E path w = (Inr n, wa)"
    and rest: "(if n = 0 then io_return () else io_bind (open_rw E path) (\<lambda>file. io_bind (overwrite_twice E file n)
        (\<lambda>_. io_bind (set_len E file 0) (\<lambda>_. io_bind (sync_all E file) (\<lambda>_. io_return ()))))) wa = (Inr (), w')"
    unfolding purge_entire_vault_def io_bind_success by blast
  from a assms(2) have n: "n = length (content (inodes w i))" "paths wa = paths w" "inodes wa = inodes w"
    by (auto simp: fs_len_def lookup_path_def os_tick_def dest!: os_call_success split: if_splits
        simp: io_bind_success)
  with assms(3) have "n \<noteq> 0" by simp
  with rest obtain fd w1 w2 w3 where s: "open_rw E path wa = (Inr fd, w1)" "overwrite_twice E fd n w1 = (Inr (), w2)"
    "set_len E fd 0 w2 = (Inr (), w3)" "sync_all E fd w3 = (Inr (), w')"
    by (auto simp: io_bind_success io_return_def)
  from s(1) assms(2) n have "fd_ino (fds w1 fd) = i" "inodes w1 = inodes w" "paths w1 = paths w"
    by (auto simp: open_rw_def lookup_path_def os_tick_def new_fd_def io_bind_success dest!: os_call_success split: if_splits)
  with s n(1) show ?thesis by (intro that) simp_all
qed

lemma purge_effect:
  fixes w :: "'w world_scheme"
  assumes "purge_entire_vault E path w = (Inr (), w')" and "paths w path = Some i" and "content (inodes w i) \<noteq> []"
  defines "n \<equiv> length (content (inodes w i))"
  obtains fd w2 where "io_bind (set_len E fd 0) (\<lambda>_. sync_all E fd) w2 = (Inr (), w')"
    and "content (inodes w2 i) = zeros n" and "durable (inodes w2 i) = zeros n"
    and "paths w' = paths w" and "content (inodes w' i) = []" and "durable (inodes w' i) = []"
proof -
  obtain fd w1 w2 w3 where o: "fd_ino (fds w1 fd) = i" "inodes w1 = inodes w" "paths w1 = paths w"
    and s: "overwrite_twice E fd n w1 = (Inr (), w2)" "set_len E fd 0 w2 = (Inr (), w3)" "sync_all E fd w3 = (Inr (), w')"
    unfolding n_def by (rule purge_stages [OF assms(1-3)])
  from overwrite_twice_success [OF s(1)] o have
    2: "file_of fd w2 = zeros n" "durable_of fd w2 = zeros n" "same_file fd w1 w2"
    by (auto simp: file_of_def n_def)
  note 3 = set_len_success [OF s(2)] and 4 = sync_success [OF s(3)]
  have "io_bind (set_len E fd 0) (\<lambda>_. sync_all E fd) w2 = (Inr (), w')" using s by (simp add: io_bind_def)
  moreover from 2 o have "content (inodes w2 i) = zeros n" "durable (inodes w2 i) = zeros n"
    by (simp_all add: file_of_def durable_of_def)
  moreover from 2 3 4 o have "content (inodes w' i) = []" "durable (inodes w' i) = []" "paths w' = paths w"
    by (auto simp: file_of_def durable_of_def)
  ultimately show thesis using that by blast
qed



end
