(* ===== verification/Utf8.thy ===== *)
theory Utf8
  imports Prelude
begin

text \<open>
  The test of \<^verbatim>\<open>str::from_utf8\<close>, by which the exported functions reject a path: well-formed byte sequences of the
  Unicode standard (shortest form, no surrogates, at most \<^verbatim>\<open>U+10FFFF\<close>).
\<close>

definition cont :: "u8 \<Rightarrow> bool" where
  "cont b \<longleftrightarrow> 0x80 \<le> b \<and> b \<le> 0xBF"

definition second_of_three :: "u8 \<Rightarrow> u8 \<Rightarrow> bool" where
  "second_of_three b c =
     (if b = 0xE0 then 0xA0 \<le> c \<and> c \<le> 0xBF
      else if b = 0xED then 0x80 \<le> c \<and> c \<le> 0x9F
      else cont c)"

definition second_of_four :: "u8 \<Rightarrow> u8 \<Rightarrow> bool" where
  "second_of_four b c =
     (if b = 0xF0 then 0x90 \<le> c \<and> c \<le> 0xBF
      else if b = 0xF4 then 0x80 \<le> c \<and> c \<le> 0x8F
      else cont c)"

fun utf8_valid :: "bytes \<Rightarrow> bool" where
  "utf8_valid [] = True"
| "utf8_valid (b # bs) =
     (if b < 0x80 then utf8_valid bs
      else if 0xC2 \<le> b \<and> b \<le> 0xDF then
        (case bs of c # r \<Rightarrow> cont c \<and> utf8_valid r | _ \<Rightarrow> False)
      else if 0xE0 \<le> b \<and> b \<le> 0xEF then
        (case bs of c # d # r \<Rightarrow> second_of_three b c \<and> cont d \<and> utf8_valid r | _ \<Rightarrow> False)
      else if 0xF0 \<le> b \<and> b \<le> 0xF4 then
        (case bs of c # d # e # r \<Rightarrow> second_of_four b c \<and> cont d \<and> cont e \<and> utf8_valid r | _ \<Rightarrow> False)
      else False)"

lemma ascii_utf8_valid: "list_all (\<lambda>b. b < 0x80) bs \<Longrightarrow> utf8_valid bs"
  by (induction bs) simp_all

text \<open>Over-long forms, surrogates and code points beyond \<^verbatim>\<open>U+10FFFF\<close> are rejected, their neighbours accepted.\<close>

lemma utf8_boundaries:
  "\<not> utf8_valid [0xC1, 0xBF]" "utf8_valid [0xC2, 0x80]" "\<not> utf8_valid [0xE0, 0x9F, 0xBF]" "utf8_valid [0xE0, 0xA0, 0x80]"
  "utf8_valid [0xED, 0x9F, 0xBF]" "\<not> utf8_valid [0xED, 0xA0, 0x80]" "utf8_valid [0xF4, 0x8F, 0xBF, 0xBF]"
  "\<not> utf8_valid [0xF4, 0x90, 0x80, 0x80]" "\<not> utf8_valid [0x80]" "\<not> utf8_valid [0xE2, 0x82]"
  by (simp_all add: cont_def second_of_three_def second_of_four_def)

end
