(* ===== verification/Ffi_Vault.thy ===== *)
theory Ffi_Vault
  imports Volume_Persist Disk_Wipe Init_Module Utf8
begin

text \<open>
  The exported vault functions of \<^verbatim>\<open>lib.rs\<close> and the persistence of the identity stamp in \<^verbatim>\<open>init_module.rs\<close>.  Here a pointer with its
  length is \<open>bytes option\<close>, \<open>None\<close> being null; it is valid for that length, which the caller has to provide.  An output buffer
  is passed in and returned; \<^verbatim>\<open>Ffi_Blocks\<close> puts these functions on native memory.  A panic in an
  export ends the process, so the lock of the vault is never seen poisoned.
\<close>

record lib_globals = init_globals +
  vfs :: "virtual_volume option"
  canary_intact :: bool

definition vault_read_block :: "env \<Rightarrow> u64 \<Rightarrow> bytes \<Rightarrow> 'a lib_globals_scheme \<Rightarrow> u32 \<times> bytes \<times> 'a lib_globals_scheme" where
  "vault_read_block E idx out s =
     (case vfs s of
        None \<Rightarrow> (1, out, s)
      | Some v \<Rightarrow> (case read_block E v idx s of (Inr b, s) \<Rightarrow> (0, b, s) | (Inl _, s) \<Rightarrow> (1, out, s)))"

definition vault_write_block :: "env \<Rightarrow> u64 \<Rightarrow> bytes \<Rightarrow> 'a lib_globals_scheme \<Rightarrow> u32 \<times> 'a lib_globals_scheme" where
  "vault_write_block E idx data s =
     (case vfs s of
        None \<Rightarrow> (1, s)
      | Some v \<Rightarrow> (case write_block E v idx data s of (Inr _, s) \<Rightarrow> (0, s) | (Inl _, s) \<Rightarrow> (1, s)))"

text \<open>A second initialisation opens the vault but keeps the first one:
  \<^verbatim>\<open>OnceLock::set\<close> fails, its value is dropped and the error ignored.\<close>

definition init_virtual_volume ::
  "env \<Rightarrow> bytes option \<Rightarrow> bytes option \<Rightarrow> u64 \<Rightarrow> 'a lib_globals_scheme \<Rightarrow> u32 \<times> 'a lib_globals_scheme" where
  "init_virtual_volume E path_ptr key_ptr total_n s =
     (case (path_ptr, key_ptr) of
        (Some path, Some key) \<Rightarrow>
          if length path = 0 \<or> length key < 32 then (1, s)
          else if \<not> utf8_valid path then (2, s)
          else
            (case open_or_create E path (take 32 key) total_n s of
               (Inl _, s) \<Rightarrow> (3, s)
             | (Inr vault, s) \<Rightarrow>
                 (case vfs s of
                    None \<Rightarrow> (0, s\<lparr>vfs := Some vault\<rparr>)
                  | Some _ \<Rightarrow> (0, snd (volume_drop E vault s))))
      | _ \<Rightarrow> (1, s))"

fun read_blocks_loop ::
  "env \<Rightarrow> virtual_volume \<Rightarrow> u64 \<Rightarrow> nat \<Rightarrow> nat \<Rightarrow> bytes \<Rightarrow> u32 \<Rightarrow> 'a lib_globals_scheme \<Rightarrow> u32 \<times> bytes \<times> 'a lib_globals_scheme" where
  "read_blocks_loop E v start i 0 out c s = (c, out, s)"
| "read_blocks_loop E v start i (Suc m) out c s =
     (case read_block E v (start + of_nat i) s of
        (Inr b, s) \<Rightarrow> read_blocks_loop E v start (Suc i) m (copy_at (i * PAYLOAD_SIZE) b out) (c + 1) s
      | (Inl _, s) \<Rightarrow> (c, out, s))"

definition read_vault_blocks ::
  "env \<Rightarrow> u64 \<Rightarrow> u32 \<Rightarrow> bytes option \<Rightarrow> 'a lib_globals_scheme \<Rightarrow> u32 \<times> bytes option \<times> 'a lib_globals_scheme" where
  "read_vault_blocks E start n out s =
     (case out of
        None \<Rightarrow> (0, None, s)
      | Some buf \<Rightarrow>
          if n = 0 then (0, Some buf, s)
          else
            (case vfs s of
               None \<Rightarrow> (0, Some buf, s)
             | Some v \<Rightarrow> (let (c, buf, s) = read_blocks_loop E v start 0 (unat n) buf 0 s in (c, Some buf, s))))"

fun write_blocks_loop ::
  "env \<Rightarrow> virtual_volume \<Rightarrow> u64 \<Rightarrow> nat \<Rightarrow> nat \<Rightarrow> bytes \<Rightarrow> u32 \<Rightarrow> 'a lib_globals_scheme \<Rightarrow> u32 \<times> 'a lib_globals_scheme" where
  "write_blocks_loop E v start i 0 data c s = (c, s)"
| "write_blocks_loop E v start i (Suc m) data c s =
     (case write_block E v (start + of_nat i) (subslice (i * PAYLOAD_SIZE) ((i + 1) * PAYLOAD_SIZE) data) s of
        (Inr _, s) \<Rightarrow> write_blocks_loop E v start (Suc i) m data (c + 1) s
      | (Inl _, s) \<Rightarrow> (c, s))"

definition write_vault_blocks ::
  "env \<Rightarrow> u64 \<Rightarrow> u32 \<Rightarrow> bytes option \<Rightarrow> 'a lib_globals_scheme \<Rightarrow> u32 \<times> 'a lib_globals_scheme" where
  "write_vault_blocks E start n data s =
     (case data of
        None \<Rightarrow> (0, s)
      | Some d \<Rightarrow>
          if n = 0 then (0, s)
          else (case vfs s of None \<Rightarrow> (0, s) | Some v \<Rightarrow> write_blocks_loop E v start 0 (unat n) d 0 s))"

definition allocate_vault_block :: "env \<Rightarrow> 'a lib_globals_scheme \<Rightarrow> u64 \<times> 'a lib_globals_scheme" where
  "allocate_vault_block E s =
     (case vfs s of
        None \<Rightarrow> (U64_MAX, s)
      | Some v \<Rightarrow>
          (case allocate_block E v s of
             (Inr b, v, s) \<Rightarrow> (b, s\<lparr>vfs := Some v\<rparr>) | (Inl _, v, s) \<Rightarrow> (U64_MAX, s\<lparr>vfs := Some v\<rparr>)))"

definition free_vault_block :: "env \<Rightarrow> u64 \<Rightarrow> 'a lib_globals_scheme \<Rightarrow> u32 \<times> 'a lib_globals_scheme" where
  "free_vault_block E idx s =
     (case vfs s of
        None \<Rightarrow> (1, s)
      | Some v \<Rightarrow>
          (case free_block E v idx s of
             (Inr _, v, s) \<Rightarrow> (0, s\<lparr>vfs := Some v\<rparr>) | (Inl _, v, s) \<Rightarrow> (3, s\<lparr>vfs := Some v\<rparr>)))"

definition secure_erase_block :: "env \<Rightarrow> u64 \<Rightarrow> 'a lib_globals_scheme \<Rightarrow> u32 \<times> 'a lib_globals_scheme" where
  "secure_erase_block E idx s =
     (case vfs s of
        None \<Rightarrow> (1, s)
      | Some v \<Rightarrow>
          let (payload, s) = fill_bytes E PAYLOAD_SIZE s
          in case write_block E v idx payload s of
               (Inl _, s) \<Rightarrow> (3, s)
             | (Inr _, s) \<Rightarrow>
                 (case free_block E v idx s of
                    (Inr _, v, s) \<Rightarrow> (0, s\<lparr>vfs := Some v\<rparr>) | (Inl _, v, s) \<Rightarrow> (3, s\<lparr>vfs := Some v\<rparr>)))"

definition register_touch_offset :: "u64 \<Rightarrow> u32 \<Rightarrow> 'a lib_globals_scheme \<Rightarrow> u32 \<times> 'a lib_globals_scheme" where
  "register_touch_offset block offset s =
     (case vfs s of None \<Rightarrow> (1, s) | Some v \<Rightarrow> (0, s\<lparr>vfs := Some (register_touch v block offset)\<rparr>))"

definition vault_total_blocks :: "'a lib_globals_scheme \<Rightarrow> u64" where
  "vault_total_blocks s = (case vfs s of None \<Rightarrow> 0 | Some v \<Rightarrow> total_blocks v)"

definition vault_free_blocks :: "'a lib_globals_scheme \<Rightarrow> u64" where
  "vault_free_blocks s = (case vfs s of None \<Rightarrow> 0 | Some v \<Rightarrow> free_blocks v)"

subsection \<open>Canary slots\<close>

definition canary_prefix :: "bytes \<Rightarrow> bool" where
  "canary_prefix b \<longleftrightarrow> take 6 b = ascii ''CANARY''"

text \<open>The result of the loop: whether every slot of the list passed.\<close>

fun check_canaries :: "env \<Rightarrow> virtual_volume \<Rightarrow> u64 list \<Rightarrow> 'a lib_globals_scheme \<Rightarrow> bool \<times> 'a lib_globals_scheme" where
  "check_canaries E v [] s = (True, s)"
| "check_canaries E v (b # bs) s =
     (case read_block E v b s of
        (Inl _, s) \<Rightarrow> (False, s)
      | (Inr buf, s) \<Rightarrow> if \<not> canary_prefix buf then (False, s) else check_canaries E v bs s)"

definition validate_canary_slots :: "env \<Rightarrow> 'a lib_globals_scheme \<Rightarrow> u32 \<times> 'a lib_globals_scheme" where
  "validate_canary_slots E s =
     (case vfs s of
        None \<Rightarrow> (1, s)
      | Some v \<Rightarrow>
          let (ok, s) = check_canaries E v [995, 996, 997, 998, 999] s
          in if ok then (0, s\<lparr>canary_intact := True\<rparr>) else (2, s))"

definition canary_slots_intact :: "'a lib_globals_scheme \<Rightarrow> u32" where
  "canary_slots_intact s = (if canary_intact s then 1 else 0)"

fun reserve_all :: "env \<Rightarrow> u64 list \<Rightarrow> virtual_volume \<Rightarrow> 'a lib_globals_scheme \<Rightarrow> virtual_volume \<times> 'a lib_globals_scheme" where
  "reserve_all E [] v s = (v, s)"
| "reserve_all E (b # bs) v s = (let (_, v, s) = reserve_block E v b s in reserve_all E bs v s)"

fun write_canaries :: "env \<Rightarrow> virtual_volume \<Rightarrow> u8 list \<Rightarrow> 'a lib_globals_scheme \<Rightarrow> u32 \<times> 'a lib_globals_scheme" where
  "write_canaries E v [] s = (0, s)"
| "write_canaries E v (slot # slots) s =
     (let (tail, s) = fill_bytes E (PAYLOAD_SIZE - 8) s;
          buf = ascii ''CANARY'' @ [slot, 1] @ tail
      in case write_block E v (995 + ucast slot) buf s of
           (Inl _, s) \<Rightarrow> (2, s)
         | (Inr _, s) \<Rightarrow> write_canaries E v slots s)"

definition init_canary_slots :: "env \<Rightarrow> 'a lib_globals_scheme \<Rightarrow> u32 \<times> 'a lib_globals_scheme" where
  "init_canary_slots E s =
     (case vfs s of
        None \<Rightarrow> (1, s)
      | Some v \<Rightarrow>
          let (v, s) = reserve_all E [994, 995, 996, 997, 998, 999] v s
          in write_canaries E v [0, 1, 2, 3, 4] (s\<lparr>vfs := Some v\<rparr>))"

subsection \<open>Identity stamp\<close>

definition persist_id_stamp :: "env \<Rightarrow> bytes \<Rightarrow> 'a lib_globals_scheme \<Rightarrow> u32 \<times> 'a lib_globals_scheme" where
  "persist_id_stamp E stamp s = (let buf = copy_at 0 stamp (zeros 4068) in vault_write_block E 994 buf s)"

definition read_id_stamp :: "env \<Rightarrow> 'a lib_globals_scheme \<Rightarrow> bytes option \<times> 'a lib_globals_scheme" where
  "read_id_stamp E s =
     (let (rc, buf, s) = vault_read_block E 994 (zeros 4068) s
      in if rc \<noteq> 0 then (None, s) else (Some (take 32 buf), s))"

definition generate_and_persist_id_stamp :: "env \<Rightarrow> 'a lib_globals_scheme \<Rightarrow> u32 \<times> 'a lib_globals_scheme" where
  "generate_and_persist_id_stamp E s = (let stamp = generate_id_stamp_from_curr E s in persist_id_stamp E stamp s)"

definition load_id_stamp :: "env \<Rightarrow> bytes option \<Rightarrow> 'a lib_globals_scheme \<Rightarrow> u32 \<times> bytes option \<times> 'a lib_globals_scheme" where
  "load_id_stamp E out s =
     (case out of
        None \<Rightarrow> (1, None, s)
      | Some buf \<Rightarrow>
          if length buf < 32 then (1, Some buf, s)
          else
            (case read_id_stamp E s of
               (Some st, s) \<Rightarrow> (0, Some (copy_at 0 st buf), s) | (None, s) \<Rightarrow> (1, Some buf, s)))"

end
