(* ===== verification/Ffi_Vault_Props.thy ===== *)
theory Ffi_Vault_Props
  imports Ffi_Vault
begin

text \<open>
  What the exported vault functions guarantee: writing and reading runs of blocks, the identity stamp, the canary slots.
\<close>

text \<open>A process with an open vault and working surroundings.\<close>

definition vault_env :: "env \<Rightarrow> bool" where
  "vault_env E \<longleftrightarrow> os_reliable E \<and> chacha_laws E \<and> hash_sizes E"

definition vault_at :: "virtual_volume \<Rightarrow> 'a lib_globals_scheme \<Rightarrow> bool" where
  "vault_at v s \<longleftrightarrow> vfs s = Some v \<and> vol_open v s"

text \<open>The stored block decrypts to the given payload.\<close>

definition block_holds :: "env \<Rightarrow> virtual_volume \<Rightarrow> u64 \<Rightarrow> bytes \<Rightarrow> 'w world_scheme \<Rightarrow> bool" where
  "block_holds E v b data w \<longleftrightarrow>
     plaintext_of E (vv_master_key v) b (stored_block v b w) = Some data"

definition data_block :: "virtual_volume \<Rightarrow> u64 \<Rightarrow> bool" where
  "data_block v b \<longleftrightarrow> 9 \<le> b \<and> b < vv_total_blocks v"

lemma same_globals:
  assumes "world.more s = world.more (s' :: 'a lib_globals_scheme)"
  shows "vfs s = vfs s'" "canary_intact s = canary_intact s'" "root_curr s = root_curr s'" "bob_pk_store s = bob_pk_store s'"
  using assms by (cases s; cases s'; simp)+

lemma keeps_vfs: "keeps_globals m \<Longrightarrow> m (s :: 'a lib_globals_scheme) = (r, s') \<Longrightarrow> vfs s' = vfs s \<and> canary_intact s' = canary_intact s"
  using same_globals [of s' s] unfolding keeps_globals_def by (metis snd_conv)

lemma lib_write_ok:
  fixes s :: "'a lib_globals_scheme"
  assumes "vault_env E" and "vault_at v s" and "data_block v b" and "length pt = PAYLOAD_SIZE"
  obtains s' where "write_block E v b pt s = (Inr (), s')" "vault_at v s'" "block_holds E v b pt s'"
    "\<And>c. c \<noteq> b \<Longrightarrow> stored_block v c s' = stored_block v c s" "canary_intact s' = canary_intact s"
proof -
  have E: "os_reliable E" "chacha_laws E" "hash_sizes E" and v: "vol_open v s" "9 \<le> b" "b < vv_total_blocks v"
    using assms by (simp_all add: vault_env_def vault_at_def data_block_def)
  obtain s' where wr: "write_block E v b pt s = (Inr (), s')" "vol_open v s'"
    "plaintext_of E (vv_master_key v) b (stored_block v b s') = Some pt" "\<forall>c. c \<noteq> b \<longrightarrow> stored_block v c s' = stored_block v c s"
    by (rule write_block_stores [OF E v assms(4)])
  moreover have "vfs s' = vfs s \<and> canary_intact s' = canary_intact s"
    by (rule keeps_vfs [OF keeps_write_block wr(1)])
  ultimately show ?thesis using assms(2) by (intro that [of s']) (auto simp: vault_at_def block_holds_def)
qed

lemma lib_read_ok:
  fixes s :: "'a lib_globals_scheme"
  assumes "vault_env E" and "vault_at v s" and "data_block v b" and "block_holds E v b pt s"
  obtains s' where "read_block E v b s = (Inr pt, s')" "vault_at v s'" "\<And>c. stored_block v c s' = stored_block v c s"
    "canary_intact s' = canary_intact s"
proof -
  have E: "os_reliable E" and v: "vol_open v s" "9 \<le> b" "b < vv_total_blocks v"
    using assms by (simp_all add: vault_env_def vault_at_def data_block_def)
  obtain s' where r: "read_block E v b s = (Inr pt, s')" "file_of (vv_file v) s' = file_of (vv_file v) s" "vol_open v s'"
    by (rule read_block_eq [OF E v]) (use assms(4) in \<open>simp add: block_holds_def\<close>)
  moreover have "vfs s' = vfs s \<and> canary_intact s' = canary_intact s"
    by (rule keeps_vfs [OF keeps_blocks(1) r(1)])
  ultimately show ?thesis using assms(2) by (intro that [of s']) (auto simp: vault_at_def stored_block_def)
qed

lemma block_holds_stored: "stored_block v b w = stored_block v b w' \<Longrightarrow> block_holds E v b d w = block_holds E v b d w'"
  by (simp add: block_holds_def)

subsection \<open>Runs of blocks\<close>

text \<open>The \<open>n\<close> blocks from \<open>start\<close> are data blocks and their indices do not wrap.\<close>

definition block_run :: "virtual_volume \<Rightarrow> u64 \<Rightarrow> nat \<Rightarrow> bool" where
  "block_run v start n \<longleftrightarrow> 9 \<le> unat start \<and> unat start + n \<le> unat (vv_total_blocks v)"

lemma block_run_index:
  assumes "block_run v start n" and "i < n"
  shows "data_block v (start + of_nat i)" "unat (start + of_nat i) = unat start + i"
proof -
  have "unat start + i < 2 ^ 64" using assms unat_u64_less [of "vv_total_blocks v"] by (simp add: block_run_def)
  then show u: "unat (start + of_nat i) = unat start + i"
    by (simp add: unat_word_ariths unat_of_nat)
  show "data_block v (start + of_nat i)"
    using assms unfolding data_block_def word_le_nat_alt word_less_nat_alt u by (simp add: block_run_def)
qed

lemma block_run_distinct:
  "block_run v start n \<Longrightarrow> i < n \<Longrightarrow> j < n \<Longrightarrow> i \<noteq> j \<Longrightarrow> start + of_nat i \<noteq> start + of_nat j"
  using block_run_index(2) [of v start n] by (metis add_left_cancel)

definition chunk :: "nat \<Rightarrow> bytes \<Rightarrow> bytes" where
  "chunk i data = subslice (i * PAYLOAD_SIZE) ((i + 1) * PAYLOAD_SIZE) data"

lemma length_chunk: "(i + 1) * PAYLOAD_SIZE \<le> length data \<Longrightarrow> length (chunk i data) = PAYLOAD_SIZE"
  by (simp add: chunk_def length_subslice)

lemma write_loop_ok:
  assumes "vault_env E" and "block_run v start n" and "length data = n * PAYLOAD_SIZE"
  shows "i + m \<le> n \<Longrightarrow> vault_at v s \<Longrightarrow>
    \<exists>s'. write_blocks_loop E v start i m data c s = (c + of_nat m, s') \<and> vault_at v s' \<and>
      (\<forall>j. i \<le> j \<and> j < i + m \<longrightarrow> block_holds E v (start + of_nat j) (chunk j data) s') \<and>
      (\<forall>j<i. stored_block v (start + of_nat j) s' = stored_block v (start + of_nat j) s)"
proof (induction m arbitrary: i c s)
  case 0
  then show ?case by auto
next
  case (Suc m)
  then have "(i + 1) * PAYLOAD_SIZE \<le> length data" unfolding assms(3) by (intro mult_le_mono1) simp
  then have len: "length (chunk i data) = PAYLOAD_SIZE" by (rule length_chunk)
  have db: "data_block v (start + of_nat i)" using block_run_index(1) [OF assms(2)] Suc.prems(1) by simp
  obtain s1 where s1: "write_block E v (start + of_nat i) (chunk i data) s = (Inr (), s1)" "vault_at v s1"
    "block_holds E v (start + of_nat i) (chunk i data) s1"
    "\<And>b. b \<noteq> start + of_nat i \<Longrightarrow> stored_block v b s1 = stored_block v b s"
    by (rule lib_write_ok [OF assms(1) Suc.prems(2) db len]) blast
  from Suc.IH [of "Suc i" s1 "c + 1"] Suc.prems(1) s1(2) obtain s' where
    s': "write_blocks_loop E v start (Suc i) m data (c + 1) s1 = (c + 1 + of_nat m, s')" "vault_at v s'"
    "\<forall>j. Suc i \<le> j \<and> j < Suc i + m \<longrightarrow> block_holds E v (start + of_nat j) (chunk j data) s'"
    "\<forall>j<Suc i. stored_block v (start + of_nat j) s' = stored_block v (start + of_nat j) s1" by auto
  have bi: "block_holds E v (start + of_nat i) (chunk i data) s'"
    using s1(3) s'(4) block_holds_stored [of v "start + of_nat i" s' s1] by simp
  have all: "block_holds E v (start + of_nat j) (chunk j data) s'" if "i \<le> j" "j < i + Suc m" for j
    using bi s'(3) that by (cases "j = i") simp_all
  have "stored_block v (start + of_nat j) s' = stored_block v (start + of_nat j) s" if "j < i" for j
    using s'(4) s1(4) [of "start + of_nat j"] block_run_distinct [OF assms(2), of j i] that Suc.prems(1) by simp
  moreover have "write_blocks_loop E v start i (Suc m) data c s = (c + of_nat (Suc m), s')"
    using s1(1) s'(1) by (simp add: chunk_def ac_simps)
  ultimately show ?case using s'(2) all by blast
qed

lemma take_copy_chunk:
  assumes "take (i * PAYLOAD_SIZE) out = take (i * PAYLOAD_SIZE) data" and "length out = length data"
    and "(i + 1) * PAYLOAD_SIZE \<le> length data"
  shows "take ((i + 1) * PAYLOAD_SIZE) (copy_at (i * PAYLOAD_SIZE) (chunk i data) out) = take ((i + 1) * PAYLOAD_SIZE) data"
    and "length (copy_at (i * PAYLOAD_SIZE) (chunk i data) out) = length data"
proof -
  have "length (chunk i data) = PAYLOAD_SIZE" using assms(3) by (rule length_chunk)
  moreover have "take ((i + 1) * PAYLOAD_SIZE) data = take (i * PAYLOAD_SIZE) data @ chunk i data"
    using take_add [of "i * PAYLOAD_SIZE" PAYLOAD_SIZE data] by (simp add: chunk_def subslice_def add.commute)
  ultimately show "take ((i + 1) * PAYLOAD_SIZE) (copy_at (i * PAYLOAD_SIZE) (chunk i data) out) = take ((i + 1) * PAYLOAD_SIZE) data"
    and "length (copy_at (i * PAYLOAD_SIZE) (chunk i data) out) = length data"
    using assms by (simp_all add: copy_at_def)
qed

lemma read_loop_ok:
  assumes "vault_env E" and "block_run v start n" and "length data = n * PAYLOAD_SIZE"
  shows "i + m \<le> n \<Longrightarrow> vault_at v s \<Longrightarrow> length out = length data \<Longrightarrow>
    take (i * PAYLOAD_SIZE) out = take (i * PAYLOAD_SIZE) data \<Longrightarrow>
    (\<And>j. j < n \<Longrightarrow> block_holds E v (start + of_nat j) (chunk j data) s) \<Longrightarrow>
    \<exists>out' s'. read_blocks_loop E v start i m out c s = (c + of_nat m, out', s') \<and> vault_at v s' \<and>
      length out' = length data \<and> take ((i + m) * PAYLOAD_SIZE) out' = take ((i + m) * PAYLOAD_SIZE) data"
proof (induction m arbitrary: i c s out)
  case 0
  then show ?case by simp
next
  case (Suc m)
  have i: "i < n" using Suc.prems(1) by simp
  then have "(i + 1) * PAYLOAD_SIZE \<le> length data" unfolding assms(3) by (intro mult_le_mono1) simp
  note step = take_copy_chunk [OF Suc.prems(4,3) this]
  obtain s1 where s1: "read_block E v (start + of_nat i) s = (Inr (chunk i data), s1)" "vault_at v s1"
    "\<And>b. stored_block v b s1 = stored_block v b s"
    by (rule lib_read_ok [OF assms(1) Suc.prems(2) block_run_index(1) [OF assms(2) i] Suc.prems(5) [OF i]]) blast
  have "block_holds E v (start + of_nat j) (chunk j data) s1" if "j < n" for j
    using Suc.prems(5) [OF that] block_holds_stored [OF s1(3)] by simp
  with Suc.IH [of "Suc i" s1 "copy_at (i * PAYLOAD_SIZE) (chunk i data) out" "c + 1"] Suc.prems(1) s1(2) step
  show ?case by (simp add: s1(1) ac_simps)
qed

text \<open>Writing a run of blocks and reading it back: on an open vault, for any number of data blocks that lie in the volume,
  \<^verbatim>\<open>write_vault_blocks\<close> stores all of them and \<^verbatim>\<open>read_vault_blocks\<close> then returns that count and exactly the bytes written.\<close>

lemma vault_blocks_buffers:
  assumes "vault_env E" and "vault_at v s" and "block_run v start (unat n)" and "n \<noteq> 0"
    and "length data = unat n * PAYLOAD_SIZE"
  shows "\<exists>s'. write_vault_blocks E start n (Some data) s = (n, s') \<and> vfs s' = Some v \<and>
    (\<forall>out. length out = length data \<longrightarrow> (\<exists>s''. read_vault_blocks E start n (Some out) s' = (n, Some data, s'')))"
proof -
  from write_loop_ok [OF assms(1,3,5), of 0 "unat n" s 0] assms(2) obtain s' where
    w: "write_blocks_loop E v start 0 (unat n) data 0 s = (n, s')" "vault_at v s'"
    "\<And>j. j < unat n \<Longrightarrow> block_holds E v (start + of_nat j) (chunk j data) s'" by auto
  have "\<exists>s''. read_blocks_loop E v start 0 (unat n) out 0 s' = (n, data, s'')" if "length out = length data" for out
    using read_loop_ok [OF assms(1,3,5), of 0 "unat n" s' out 0] w(2,3) that assms(5) by auto
  with w assms(2,4) show ?thesis
    by (fastforce simp: write_vault_blocks_def read_vault_blocks_def vault_at_def)
qed

text \<open>A process with a vault of 1000 data blocks.\<close>

definition demo_big :: virtual_volume where
  "demo_big = \<lparr>vv_file = 0, vv_master_key = zeros 32, vv_total_blocks = 1009, vv_free_blocks = 1000,
     vv_bitmap = zeros 32768, vv_path = [], vv_bitmap_write_count = 0\<rparr>"

definition demo_lib :: lib_globals where
  "demo_lib = (init_globals.extend demo_init (lib_globals.fields (Some demo_big) False))
     \<lparr>paths := [[] \<mapsto> 0],
      inodes := (\<lambda>_. \<lparr>content = zeros 4132864, durable = [], atime = 0, mtime = 0\<rparr>)\<rparr>"

lemma demo_big_wf: "vol_wf demo_big"
  by (simp add: vol_wf_def demo_big_def data_n_def unmarked_zeros bitmap_wf_def)

lemma demo_vault_at: "vault_at demo_big demo_lib"
proof -
  have "vfs demo_lib = Some demo_big" "paths demo_lib [] = Some 0" "fd_ino (fds demo_lib 0) = 0"
    "length (content (inodes demo_lib 0)) = 4132864"
    by (simp_all add: demo_lib_def init_globals.extend_def lib_globals.fields_def demo_init_defs demo_world_def)
  moreover have "vv_file demo_big = 0" "vv_path demo_big = []" "vv_total_blocks demo_big = 1009" by (simp_all add: demo_big_def)
  ultimately show ?thesis
    using demo_big_wf by (simp add: vault_at_def vol_open_def linked_def file_of_def BLOCK_SIZE_def)
qed

lemma demo_vault_env: "vault_env demo_env"
  by (simp add: vault_env_def demo_laws)

subsection \<open>The identity stamp\<close>

text \<open>The identity stamp is found again: on an open vault that reaches block 994, generating the stamp succeeds and
  loading it returns the hash of the current root key and the stored public key, in the first 32 bytes of the caller's buffer.\<close>

lemma id_stamp_buffers:
  assumes "vault_env E" and "vault_at v s" and "994 < vv_total_blocks v" and "32 \<le> length out"
  shows "\<exists>s' s''. generate_and_persist_id_stamp E s = (0, s') \<and>
    read_id_stamp E s' = (Some (compute_id_stamp E (root_curr s) (bob_pk_store s)), s'') \<and>
    load_id_stamp E (Some out) s' = (0, Some (compute_id_stamp E (root_curr s) (bob_pk_store s) @ drop 32 out), s'')"
proof -
  let ?st = "compute_id_stamp E (root_curr s) (bob_pk_store s)" and ?pt = "copy_at 0 (compute_id_stamp E (root_curr s) (bob_pk_store s)) (zeros 4068)"
  have st: "length ?st = 32" using assms(1) by (simp add: compute_id_stamp_def vault_env_def hash_sizes_def)
  have db: "data_block v 994" using assms(3) by (simp add: data_block_def)
  have len: "length ?pt = PAYLOAD_SIZE" using st by (simp add: copy_at_def PAYLOAD_SIZE_def BLOCK_SIZE_def)
  obtain s' where w: "write_block E v 994 ?pt s = (Inr (), s')" "vault_at v s'" "block_holds E v 994 ?pt s'"
    by (rule lib_write_ok [OF assms(1,2) db len]) blast
  obtain s'' where r: "read_block E v 994 s' = (Inr ?pt, s'')"
    by (rule lib_read_ok [OF assms(1) w(2) db w(3)]) blast
  have "generate_and_persist_id_stamp E s = (0, s')"
    using w(1) assms(2) by (simp add: generate_and_persist_id_stamp_def persist_id_stamp_def vault_write_block_def
        generate_id_stamp_from_curr_def read_bob_pk_def vault_at_def)
  moreover have "take 32 ?pt = ?st" using st by (simp add: copy_at_def)
  then have "read_id_stamp E s' = (Some ?st, s'')" using r w(2) by (simp add: read_id_stamp_def vault_read_block_def vault_at_def)
  moreover from this have "load_id_stamp E (Some out) s' = (0, Some (?st @ drop 32 out), s'')"
    using assms(4) st by (simp add: load_id_stamp_def copy_at_def)
  ultimately show ?thesis by blast
qed

subsection \<open>Canary slots\<close>

lemma check_canaries_flag: "canary_intact (snd (check_canaries E v bs s)) = canary_intact s"
proof (induction bs arbitrary: s)
  case (Cons b bs)
  obtain r s1 where r: "read_block E v b s = (r, s1)" by force
  with keeps_vfs [OF keeps_blocks(1) r] Cons show ?case by (auto split: sum.split)
qed simp

lemma ucast_u8_inject: "(ucast (a :: u8) :: u64) = ucast b \<Longrightarrow> a = b"
proof -
  assume eq: "(ucast a :: u64) = ucast b"
  have "unat (ucast x :: u64) = unat x" for x :: u8
    using unsigned_less [of x, where 'a = nat] by (simp add: unsigned_ucast_eq take_bit_nat_eq_self)
  with eq have "unat a = unat b" by metis
  then show "a = b" by (simp add: word_unat_eq_iff)
qed

lemma reserve_ok:
  assumes "os_reliable E" and "vol_open v w" and "data_block v b"
  obtains v' w' where "reserve_block E v b w = (Inr (), v', w')" "vol_open v' w'" "b \<notin> vol_free v'"
    "vol_free v' \<subseteq> vol_free v" "vv_total_blocks v' = vv_total_blocks v"
proof -
  have wf: "vol_wf v" using assms(2) by (simp add: vol_open_def)
  have r: "9 \<le> b" "b < vv_total_blocks v" using assms(3) by (simp_all add: data_block_def)
  then obtain i where i: "i < data_n v" "b = 9 + of_nat i" using block_in_range [OF wf, of b] by blast
  then have ub: "unat (b - DATA_START_BLOCK) = i" using block_index [OF wf] by simp
  show ?thesis
  proof (cases "bit_free (vv_bitmap v) i")
    case False
    then have "reserve_block E v b w = (Inr (), v, w)" "b \<notin> vol_free v"
      using ub by (simp_all add: reserve_block_def check_pass [OF r] vol_free_def)
    with assms(2) that show ?thesis by blast
  next
    case True
    have m: "vol_wf (marked i v)" "vol_free (marked i v) = vol_free v - {b}"
      using marked_wf [OF wf i(1) True] i(2) by blast+
    then have "vol_open (marked i v) w" using assms(2) by (simp add: vol_open_def marked_def)
    then obtain w' where w': "write_bitmap E (marked i v) w = (Inr (), w')" "vol_open (marked i v) w'"
      by (rule write_bitmap_ok [OF assms(1)])
    then have "reserve_block E v b w = (Inr (), marked i v, w')"
      using True ub by (simp add: reserve_block_def check_pass [OF r] Let_def marked_def)
    with w'(2) m(2) show ?thesis by (intro that [of "marked i v" w']) (simp_all add: marked_def)
  qed
qed

lemma reserve_all_ok:
  assumes "os_reliable E"
  shows "vol_open v s \<Longrightarrow> (\<And>b. b \<in> set bs \<Longrightarrow> data_block v b) \<Longrightarrow>
    \<exists>v' s'. reserve_all E bs v s = (v', s') \<and> vol_open v' s' \<and> set bs \<inter> vol_free v' = {} \<and> vol_free v' \<subseteq> vol_free v \<and>
      vv_total_blocks v' = vv_total_blocks v"
proof (induction bs arbitrary: v s)
  case (Cons b bs)
  obtain v1 s1 where 1: "reserve_block E v b s = (Inr (), v1, s1)" "vol_open v1 s1" "b \<notin> vol_free v1"
    "vol_free v1 \<subseteq> vol_free v" "vv_total_blocks v1 = vv_total_blocks v"
    by (rule reserve_ok [OF assms Cons.prems(1) Cons.prems(2) [of b]]) auto
  from 1(5) Cons.prems(2) have "\<And>b. b \<in> set bs \<Longrightarrow> data_block v1 b" by (simp add: data_block_def)
  with Cons.IH [OF 1(2)] obtain v' s' where 2: "reserve_all E bs v1 s1 = (v', s')" "vol_open v' s'"
    "set bs \<inter> vol_free v' = {}" "vol_free v' \<subseteq> vol_free v1" "vv_total_blocks v' = vv_total_blocks v1" by auto
  from 1(1) 2(1) have "reserve_all E (b # bs) v s = (v', s')" by simp
  with 1 2 show ?case by (intro exI [of _ v'] exI [of _ s']) auto
qed auto

lemma write_canaries_ok:
  assumes "vault_env E"
  shows "vault_at v s \<Longrightarrow> distinct slots \<Longrightarrow> (\<And>k. k \<in> set slots \<Longrightarrow> data_block v (995 + ucast k)) \<Longrightarrow>
    \<exists>s'. write_canaries E v slots s = (0, s') \<and> vault_at v s' \<and>
      (\<forall>k. k \<in> set slots \<longrightarrow> (\<exists>d. block_holds E v (995 + ucast k) d s' \<and> canary_prefix d)) \<and>
      (\<forall>b. b \<notin> (\<lambda>k. 995 + ucast k) ` set slots \<longrightarrow> stored_block v b s' = stored_block v b s)"
proof (induction slots arbitrary: s)
  case (Cons k slots)
  obtain tl s1 where f: "fill_bytes E (PAYLOAD_SIZE - 8) s = (tl, s1)" by force
  let ?b = "995 + ucast k :: u64" and ?d = "ascii ''CANARY'' @ [k, 1] @ tl"
  have s1: "vault_at v s1" "\<And>c. stored_block v c s1 = stored_block v c s"
    using f Cons.prems(1) by (auto simp: fill_bytes_def vault_at_def vol_open_def linked_def file_of_def stored_block_def)
  have d: "length ?d = PAYLOAD_SIZE" "canary_prefix ?d"
    using fill_bytes_length [OF f] by (simp_all add: ascii_def canary_prefix_def PAYLOAD_SIZE_def BLOCK_SIZE_def)
  obtain s2 where 2: "write_block E v ?b ?d s1 = (Inr (), s2)" "vault_at v s2" "block_holds E v ?b ?d s2"
    "\<And>c. c \<noteq> ?b \<Longrightarrow> stored_block v c s2 = stored_block v c s1"
    by (rule lib_write_ok [OF assms s1(1) Cons.prems(3) [of k] d(1)]) auto
  from Cons.IH [OF 2(2)] Cons.prems(2,3) obtain s' where 3: "write_canaries E v slots s2 = (0, s')" "vault_at v s'"
    "\<forall>j. j \<in> set slots \<longrightarrow> (\<exists>d. block_holds E v (995 + ucast j) d s' \<and> canary_prefix d)"
    "\<forall>b. b \<notin> (\<lambda>k. 995 + ucast k) ` set slots \<longrightarrow> stored_block v b s' = stored_block v b s2" by auto
  have "?b \<notin> (\<lambda>k. 995 + ucast k) ` set slots" using Cons.prems(2) by (auto dest: ucast_u8_inject)
  with 3(4) have "stored_block v ?b s' = stored_block v ?b s2" by blast
  then have own: "block_holds E v ?b ?d s'" using 2(3) block_holds_stored by blast
  show ?case
  proof (rule exI [of _ s'], intro conjI allI impI)
    show "write_canaries E v (k # slots) s = (0, s')" using f 2(1) 3(1) by simp
    show "vault_at v s'" by (rule 3(2))
    show "\<exists>d. block_holds E v (995 + ucast j) d s' \<and> canary_prefix d" if "j \<in> set (k # slots)" for j
      using that own d(2) 3(3) by (cases "j = k") auto
    show "stored_block v b s' = stored_block v b s" if "b \<notin> (\<lambda>k. 995 + ucast k) ` set (k # slots)" for b
      using that 3(4) 2(4) [of b] s1(2) [of b] by simp
  qed
qed auto

lemma check_canaries_ok:
  assumes "vault_env E"
  shows "vault_at v s \<Longrightarrow> (\<And>b. b \<in> set bs \<Longrightarrow> data_block v b \<and> (\<exists>d. block_holds E v b d s \<and> canary_prefix d)) \<Longrightarrow>
    \<exists>s'. check_canaries E v bs s = (True, s') \<and> vault_at v s'"
proof (induction bs arbitrary: s)
  case (Cons b bs)
  then obtain d where d: "data_block v b" "block_holds E v b d s" "canary_prefix d" by fastforce
  obtain s1 where 1: "read_block E v b s = (Inr d, s1)" "vault_at v s1" "\<And>c. stored_block v c s1 = stored_block v c s"
    by (rule lib_read_ok [OF assms Cons.prems(1) d(1,2)]) blast
  have "data_block v c \<and> (\<exists>d. block_holds E v c d s1 \<and> canary_prefix d)" if "c \<in> set bs" for c
    using Cons.prems(2) [of c] that block_holds_stored [OF 1(3)] by simp
  from Cons.IH [OF 1(2) this] 1(1) d(3) show ?case by auto
qed simp

text \<open>C32: The canary slots protect themselves: on an open vault that reaches block 999, initialising them succeeds, takes blocks 994 to
  999 out of the free set, so that the allocator does not hand them out, and a following validation passes and sets the flag.\<close>

theorem canary_slots_roundtrip:
  assumes "vault_env E" and "vault_at v s" and "999 < vv_total_blocks v"
  shows "\<exists>v' s' s''. init_canary_slots E s = (0, s') \<and> vault_at v' s' \<and> {994, 995, 996, 997, 998, 999} \<inter> vol_free v' = {} \<and>
    validate_canary_slots E s' = (0, s'') \<and> canary_slots_intact s'' = 1"
proof -
  have range: "data_block u b" if "vv_total_blocks u = vv_total_blocks v" "b \<in> set [994, 995, 996, 997, 998, 999]" for u b
    using that assms(3) by (auto simp: data_block_def word_less_nat_alt word_le_nat_alt)
  have E: "os_reliable E" and at0: "vol_open v s" using assms(1,2) by (simp_all add: vault_env_def vault_at_def)
  obtain v' s1 where r: "reserve_all E [994, 995, 996, 997, 998, 999] v s = (v', s1)" "vol_open v' s1"
    "set [994, 995, 996, 997, 998, 999] \<inter> vol_free v' = {}" "vv_total_blocks v' = vv_total_blocks v"
    using reserve_all_ok [OF E at0 range [OF refl]] by blast
  let ?s = "s1\<lparr>vfs := Some v'\<rparr>"
  have at: "vault_at v' ?s"
    using r(2) by (simp add: vault_at_def vol_open_def linked_def file_of_def)
  have slots: "995 + ucast k \<in> set [994, 995, 996, 997, 998, 999 :: u64]" if "k \<in> set [0, 1, 2, 3, 4 :: u8]" for k
    using that by auto
  have dist: "distinct [0, 1, 2, 3, 4 :: u8]" by simp
  obtain s' where w: "write_canaries E v' [0, 1, 2, 3, 4] ?s = (0, s')" "vault_at v' s'"
    "\<And>k. k \<in> set [0, 1, 2, 3, 4 :: u8] \<Longrightarrow> \<exists>d. block_holds E v' (995 + ucast k) d s' \<and> canary_prefix d"
    using write_canaries_ok [OF assms(1) at dist range [OF r(4) slots]] by blast
  have "data_block v' b \<and> (\<exists>d. block_holds E v' b d s' \<and> canary_prefix d)" if "b \<in> set [995, 996, 997, 998, 999]" for b
    using that range [OF r(4)] w(3) [of 0] w(3) [of 1] w(3) [of 2] w(3) [of 3] w(3) [of 4] by auto
  from check_canaries_ok [OF assms(1) w(2) this] obtain s'' where
    "check_canaries E v' [995, 996, 997, 998, 999] s' = (True, s'')" by blast
  with w(2) have "validate_canary_slots E s' = (0, s''\<lparr>canary_intact := True\<rparr>)"
    by (simp add: validate_canary_slots_def vault_at_def del: check_canaries.simps)
  moreover have "init_canary_slots E s = (0, s')"
    using assms(2) r(1) w(1) by (simp add: init_canary_slots_def vault_at_def del: reserve_all.simps write_canaries.simps)
  moreover have "{994, 995, 996, 997, 998, 999} \<inter> vol_free v' = {}" using r(3) by simp
  moreover have "canary_slots_intact (s''\<lparr>canary_intact := True\<rparr>) = 1" by (simp add: canary_slots_intact_def)
  ultimately show ?thesis using w(2) by blast
qed

theorem canary_slots_roundtrip_witness:
  "\<exists>s' s''. init_canary_slots demo_env demo_lib = (0, s') \<and> validate_canary_slots demo_env s' = (0, s'')"
proof -
  have "999 < vv_total_blocks demo_big" by (simp add: demo_big_def)
  from canary_slots_roundtrip [OF demo_vault_env demo_vault_at this] show ?thesis by blast
qed

text \<open>A failed validation does not clear the flag: whatever validation finds, if it does not pass,
  \<^verbatim>\<open>canary_slots_intact\<close> answers as before it, so it keeps answering 1 after a slot was overwritten.\<close>

lemma canary_flag_is_sticky:
  assumes "validate_canary_slots E s = (rc, s')" and "rc \<noteq> 0"
  shows "canary_slots_intact s' = canary_slots_intact s"
proof (cases "vfs s")
  case (Some v)
  obtain ok s1 where c: "check_canaries E v [995, 996, 997, 998, 999] s = (ok, s1)" by force
  then have "canary_intact s1 = canary_intact s"
    using check_canaries_flag [of E v "[995, 996, 997, 998, 999]" s] by simp
  with Some c assms show ?thesis
    by (auto simp: validate_canary_slots_def canary_slots_intact_def simp del: check_canaries.simps split: if_splits)
qed (use assms in \<open>simp add: validate_canary_slots_def\<close>)

end
