(* ===== verification/Vault_Restart.thy ===== *)
theory Vault_Restart
  imports Volume_Refine Ffi_Vault_Props
begin

text \<open>
  The vault across processes: what one process writes through the exports of \<^verbatim>\<open>lib.rs\<close>, the next one reads.
\<close>

lemma keeps_open [keeps_intros]: "keeps_globals (open_rw E p)" "keeps_globals (open_create_new E p)"
  by (auto simp: keeps_globals_def open_rw_def open_create_new_def os_call_def io_bind_def lookup_path_def new_fd_def
      os_tick_def Let_def split: option.splits prod.splits sum.splits if_splits)

lemma keeps_volume [keeps_intros]: "keeps_globals (create_new E path key n)" "keeps_globals (open_existing E path key)"
  unfolding create_new_def open_existing_def Let_def
  by (intro keeps_intros; auto intro!: keeps_intros split: option.split)+

lemma keeps_stat: "world.more (snd (fs_len E p w)) = world.more w" "world.more (snd (path_exists E p w)) = world.more w"
  by (simp_all add: path_exists_def fs_len_def os_call_def io_bind_def lookup_path_def os_tick_def split: option.split prod.split)

lemma keeps_remove: "world.more (snd (remove_file E p w)) = world.more w"
  by (simp add: remove_file_def os_call_def io_bind_def lookup_path_def os_tick_def split: option.split)

lemma keeps_open_or_create [keeps_intros]: "keeps_globals (open_or_create E path key n)"
  unfolding keeps_globals_def
proof
  fix w :: "'a world_scheme"
  obtain len w1 there w2 again w3 where *: "fs_len E path w = (len, w1)" "path_exists E path w1 = (there, w2)"
    "path_exists E path w2 = (again, w3)" by fastforce
  then have "world.more w1 = world.more w" "world.more w2 = world.more w1" "world.more w3 = world.more w2"
    using keeps_stat(1) [of E path w] keeps_stat(2) [of E path w1] keeps_stat(2) [of E path w2] by simp_all
  with * show "world.more (snd (open_or_create E path key n w)) = world.more w"
    by (simp add: open_or_create_def Let_def keeps_remove keeps_volume [unfolded keeps_globals_def, rule_format])
qed

text \<open>The container without the process's own state.\<close>

lemma vol_inv_vfs [simp]: "vol_inv E (v, s\<lparr>vfs := x\<rparr>) = vol_inv E (v, s :: 'a lib_globals_scheme)"
  by (simp add: vol_inv_def vol_open_def linked_def file_of_def)

lemma vol_store_vfs [simp]: "vol_store E (v, s\<lparr>vfs := x\<rparr>) = vol_store E (v, s :: 'a lib_globals_scheme)"
  by (simp add: vol_store_def stored_block_def file_of_def fun_eq_iff)

lemma init_fresh:
  fixes s :: "'a lib_globals_scheme"
  assumes "vault_env E" and path: "path \<noteq> []" "utf8_valid path" "0 \<notin> set path" "paths s path = None"
    and "vfs s = None" and "n \<le> MAX_DATA_BLOCKS" and "32 \<le> length key"
  obtains fd s1 where "init_virtual_volume E (Some path) (Some key) n s = (0, s1)"
    "vfs s1 = Some (created fd path (take 32 key) n)" "vol_inv E (created fd path (take 32 key) n, s1)"
proof -
  have E: "os_reliable E" "chacha_laws E" "hash_sizes E" using assms(1) by (simp_all add: vault_env_def)
  let ?s = "os_tick (os_tick (os_tick s))"
  have "paths ?s path = None" using path(4) by (simp add: os_tick_def)
  then obtain fd s' where c: "create_new E path (take 32 key) n ?s = (Inr (created fd path (take 32 key) n), s')"
    "vol_open (created fd path (take 32 key) n) s'" "on_disk E (created fd path (take 32 key) n) (file_of fd s')"
    by (rule create_new_ok [OF E(1,3) path(3) _ assms(7)])
  have "vfs s' = vfs ?s" using keeps_vfs [OF keeps_volume(1) c(1)] by blast
  then have none: "vfs s' = None" using assms(6) by (simp add: os_tick_def)
  have "open_or_create E path (take 32 key) n s = (Inr (created fd path (take 32 key) n), s')"
    unfolding open_or_create_absent [OF E(1) path(4) assms(7)] by (rule c(1))
  then have "init_virtual_volume E (Some path) (Some key) n s = (0, s'\<lparr>vfs := Some (created fd path (take 32 key) n)\<rparr>)"
    using path(1,2) assms(8) none by (simp add: init_virtual_volume_def)
  moreover have "vol_inv E (created fd path (take 32 key) n, s')"
    using E c(2,3) by (simp add: vol_inv_def created_def)
  ultimately show thesis by (intro that [of "s'\<lparr>vfs := Some (created fd path (take 32 key) n)\<rparr>" fd]) simp_all
qed

lemma holds_cell: "data_block v b \<Longrightarrow> block_holds E v b d w \<longleftrightarrow> cells (vol_store E (v, w)) b = Some d"
  by (simp add: data_block_def block_holds_def vol_store_def)

lemma write_loop_inv:
  assumes "length d = n * PAYLOAD_SIZE"
  shows "vol_inv E (v, s) \<Longrightarrow> i + m \<le> n \<Longrightarrow> write_blocks_loop E v b i m d c s = (r, s') \<Longrightarrow> vol_inv E (v, s')"
proof (induction m arbitrary: i c s)
  case (Suc m)
  then have "(i + 1) * PAYLOAD_SIZE \<le> length d" unfolding assms by (intro mult_le_mono1) simp
  then have len: "length (chunk i d) = PAYLOAD_SIZE" by (rule length_chunk)
  obtain x s1 where x: "write_block E v (b + of_nat i) (chunk i d) s = (x, s1)" by force
  with write_refines [OF Suc.prems(1) len, of "b + of_nat i"] have inv: "vol_inv E (v, s1)" by (auto split: if_splits)
  have "x = Inl e \<Longrightarrow> s' = s1" for e using Suc.prems(3) x by (simp add: chunk_def)
  moreover have "x = Inr u \<Longrightarrow> vol_inv E (v, s')" for u
    using Suc.IH [OF inv, of "Suc i" "c + 1"] Suc.prems(2,3) x by (simp add: chunk_def)
  ultimately show ?case using inv by (cases x) auto
qed simp

lemma created_run:
  assumes "n \<le> MAX_DATA_BLOCKS" and "9 \<le> b" and "unat b + k \<le> 9 + unat n"
  shows "block_run (created fd path key n) b k"
proof -
  have "unat (9 + n) = 9 + unat n" using assms(1) by (simp add: unat_word_ariths MAX_DATA_BLOCKS_def word_le_nat_alt)
  with assms(2,3) show ?thesis by (simp add: block_run_def created_def word_le_nat_alt)
qed

lemma init_again:
  fixes t :: "'a lib_globals_scheme"
  assumes inv: "vol_inv E (v, w)" and "vv_path v \<noteq> []" "utf8_valid (vv_path v)" and "vfs t = None"
    and i: "paths t (vv_path v) = Some i" "content (inodes t i) = file_of (vv_file v) w"
    and "m \<le> MAX_DATA_BLOCKS" and "32 \<le> length key"
  shows "take 32 key = vv_master_key v \<Longrightarrow>
      \<exists>v' t1. init_virtual_volume E (Some (vv_path v)) (Some key) m t = (0, t1) \<and> vfs t1 = Some v' \<and> vol_inv E (v', t1) \<and>
        vol_store E (v', t1) = vol_store E (v, w)"
    and "sha256 E (take 32 key) \<noteq> sha256 E (vv_master_key v) \<Longrightarrow>
      fst (init_virtual_volume E (Some (vv_path v)) (Some key) m t) = 3"
proof -
  note again = open_again [OF inv i assms(7)]
  have none: "vfs t' = None" if "open_or_create E (vv_path v) k m t = (r, t')" for k r t'
    using keeps_vfs [OF keeps_open_or_create that] assms(4) by simp
  show "\<exists>v' t1. init_virtual_volume E (Some (vv_path v)) (Some key) m t = (0, t1) \<and> vfs t1 = Some v' \<and> vol_inv E (v', t1) \<and>
      vol_store E (v', t1) = vol_store E (v, w)" if key: "take 32 key = vv_master_key v"
  proof -
    obtain fd t' where o: "open_or_create E (vv_path v) (vv_master_key v) m t = (Inr (v\<lparr>vv_file := fd, vv_bitmap_write_count := 0\<rparr>), t')"
      "vol_inv E (v\<lparr>vv_file := fd, vv_bitmap_write_count := 0\<rparr>, t')"
      "vol_store E (v\<lparr>vv_file := fd, vv_bitmap_write_count := 0\<rparr>, t') = vol_store E (v, w)"
      using again(1) by blast
    with none [OF o(1)] key assms(2,3,8) show ?thesis by (simp add: init_virtual_volume_def)
  qed
  show "fst (init_virtual_volume E (Some (vv_path v)) (Some key) m t) = 3"
    if "sha256 E (take 32 key) \<noteq> sha256 E (vv_master_key v)"
    using again(2) [OF that] assms(2,3,8) by (auto simp: init_virtual_volume_def)
qed

lemma read_stored:
  fixes t :: "'a lib_globals_scheme"
  assumes "vault_env E" and "vfs t = Some v'" and "vol_inv E (v', t)" and "vol_store E (v', t) = vol_store E (v, w)"
    and "block_run v b (unat k)" and "length d = unat k * PAYLOAD_SIZE" and "k \<noteq> 0"
    and "\<And>j. j < unat k \<Longrightarrow> block_holds E v (b + of_nat j) (chunk j d) w" and "length buf = length d"
  shows "\<exists>t2. read_vault_blocks E b k (Some buf) t = (k, Some d, t2)"
proof -
  have tot: "vv_total_blocks v' = vv_total_blocks v" using arg_cong [OF assms(4), of end_cell] by (simp add: vol_store_def)
  then have run: "block_run v' b (unat k)" using assms(5) by (simp add: block_run_def)
  have "block_holds E v' (b + of_nat j) (chunk j d) t" if "j < unat k" for j
    using assms(8) [OF that]
    by (simp add: holds_cell block_run_index(1) [OF assms(5) that] block_run_index(1) [OF run that] assms(4))
  moreover have "vault_at v' t" using assms(2,3) by (simp add: vault_at_def vol_inv_def)
  ultimately obtain out' t2 where "read_blocks_loop E v' b 0 (unat k) buf 0 t = (k, out', t2)" "length out' = length d"
    "take (unat k * PAYLOAD_SIZE) out' = take (unat k * PAYLOAD_SIZE) d"
    using read_loop_ok [OF assms(1) run assms(6), of 0 "unat k" t buf 0] assms(9) by auto
  with assms(2,6,7) show ?thesis by (simp add: read_vault_blocks_def)
qed

text \<open>What the next process finds at the path: with the 32-byte key it opens the vault and reads the run of blocks, into any buffer; with
  a key of another hash it gets error 3.\<close>

definition reopens :: "env \<Rightarrow> bytes \<Rightarrow> bytes \<Rightarrow> u64 \<Rightarrow> u64 \<Rightarrow> u32 \<Rightarrow> bytes \<Rightarrow> 'a lib_globals_scheme \<Rightarrow> bool" where
  "reopens E path mk m b k d t \<longleftrightarrow>
     (\<forall>key. 32 \<le> length key \<and> take 32 key = mk \<longrightarrow>
        (\<exists>t1. init_virtual_volume E (Some path) (Some key) m t = (0, t1) \<and> vfs t1 \<noteq> None \<and>
           (\<forall>buf. length buf = length d \<longrightarrow> (\<exists>t2. read_vault_blocks E b k (Some buf) t1 = (k, Some d, t2))))) \<and>
     (\<forall>key. 32 \<le> length key \<and> sha256 E (take 32 key) \<noteq> sha256 E mk \<longrightarrow>
        fst (init_virtual_volume E (Some path) (Some key) m t) = 3)"

lemma reopens_stored:
  fixes t w :: "'a lib_globals_scheme"
  assumes "vault_env E" and inv: "vol_inv E (v, w)" and ne: "vv_path v \<noteq> []" "utf8_valid (vv_path v)"
    and t: "paths t = paths w" "inodes t = inodes w" "vfs t = None" and "m \<le> MAX_DATA_BLOCKS"
    and run: "block_run v b (unat k)" and d: "length d = unat k * PAYLOAD_SIZE" "k \<noteq> 0"
    and holds: "\<And>j. j < unat k \<Longrightarrow> block_holds E v (b + of_nat j) (chunk j d) w"
  shows "reopens E (vv_path v) (vv_master_key v) m b k d t"
  unfolding reopens_def
proof (intro conjI allI impI; elim conjE)
  let ?i = "fd_ino (fds w (vv_file v))"
  have "paths w (vv_path v) = Some ?i" using inv by (simp add: vol_inv_def vol_open_def linked_def)
  then have i: "paths t (vv_path v) = Some ?i" "content (inodes t ?i) = file_of (vv_file v) w"
    using t by (simp_all add: file_of_def)
  note again = init_again [OF inv ne t(3) i assms(8)]
  show "fst (init_virtual_volume E (Some (vv_path v)) (Some key) m t) = 3"
    if "32 \<le> length key" "sha256 E (take 32 key) \<noteq> sha256 E (vv_master_key v)" for key
    by (rule again(2) [OF that])
  show "\<exists>t1. init_virtual_volume E (Some (vv_path v)) (Some key) m t = (0, t1) \<and> vfs t1 \<noteq> None \<and>
      (\<forall>buf. length buf = length d \<longrightarrow> (\<exists>t2. read_vault_blocks E b k (Some buf) t1 = (k, Some d, t2)))"
    if key: "32 \<le> length key" "take 32 key = vv_master_key v" for key
  proof -
    obtain v' t1 where t1: "init_virtual_volume E (Some (vv_path v)) (Some key) m t = (0, t1)" "vfs t1 = Some v'" "vol_inv E (v', t1)"
      "vol_store E (v', t1) = vol_store E (v, w)" using again(1) [OF key] by blast
    with read_stored [OF assms(1) t1(2,3,4) run d holds] show ?thesis by auto
  qed
qed

text \<open>What one process stores, the next one reads: a process initialises a vault at a path where no file exists and writes a run of
  data blocks; a later process finds them, whatever block count it asks for.\<close>

lemma restart_buffers:
  fixes s :: "'a lib_globals_scheme"
  assumes "vault_env E" and "path \<noteq> []" and "utf8_valid path" and "0 \<notin> set path" and "paths s path = None" and "vfs s = None"
    and "n \<le> MAX_DATA_BLOCKS" and "m \<le> MAX_DATA_BLOCKS" and "32 \<le> length key" and "k \<noteq> 0" and "9 \<le> b" and "unat b + unat k \<le> 9 + unat n"
    and "length d = unat k * PAYLOAD_SIZE"
  obtains s1 s2 where "init_virtual_volume E (Some path) (Some key) n s = (0, s1)" "write_vault_blocks E b k (Some d) s1 = (k, s2)"
    "\<forall>t :: 'a lib_globals_scheme. paths t = paths s2 \<and> inodes t = inodes s2 \<and> vfs t = None \<longrightarrow> reopens E path (take 32 key) m b k d t"
proof -
  obtain fd s1 where s1: "init_virtual_volume E (Some path) (Some key) n s = (0, s1)"
    "vfs s1 = Some (created fd path (take 32 key) n)" "vol_inv E (created fd path (take 32 key) n, s1)"
    by (rule init_fresh [OF assms(1-7,9)])
  let ?v = "created fd path (take 32 key) n"
  have v: "vv_path ?v = path" "vv_master_key ?v = take 32 key" by (simp_all add: created_def)
  have run: "block_run ?v b (unat k)" by (rule created_run [OF assms(7,11,12)])
  have "vault_at ?v s1" using s1(2,3) by (simp add: vault_at_def vol_inv_def)
  from write_loop_ok [OF assms(1) run assms(13), of 0 "unat k" s1 0] this obtain s2 where
    w: "write_blocks_loop E ?v b 0 (unat k) d 0 s1 = (k, s2)"
    "\<And>j. j < unat k \<Longrightarrow> block_holds E ?v (b + of_nat j) (chunk j d) s2" by auto
  have inv: "vol_inv E (?v, s2)" by (rule write_loop_inv [OF assms(13) s1(3) _ w(1)]) simp
  have "write_vault_blocks E b k (Some d) s1 = (k, s2)" using w(1) s1(2) assms(10) by (simp add: write_vault_blocks_def)
  moreover have "reopens E path (take 32 key) m b k d t" if "paths t = paths s2 \<and> inodes t = inodes s2 \<and> vfs t = None"
    for t :: "'a lib_globals_scheme"
    using reopens_stored [OF assms(1) inv _ _ _ _ _ assms(8) run assms(13,10) w(2), of t] that assms(2,3) v by simp
  ultimately show thesis by (intro that [OF s1(1)]) blast+
qed

end
