(* ===== verification/Vault_Erase.thy ===== *)
theory Vault_Erase
  imports Vault_Restart
begin

text \<open>
  The vault and power failures: what \<^verbatim>\<open>secure_erase_block\<close> destroys stays destroyed, because freeing the block flushes the file, while
  a block written by \<^verbatim>\<open>write_vault_blocks\<close> is not durable before the next flush.
\<close>

subsection \<open>What a crash leaves\<close>

lemma file_of_crash: "file_of fd (crash w) = durable_of fd w"
  by (simp add: file_of_def durable_of_def crash_def)

lemma linked_crash [simp]: "linked p fd (crash w) = linked p fd w"
  by (simp add: linked_def crash_def)

lemma crash_synced:
  assumes "durable_of (vv_file v) w = file_of (vv_file v) w"
  shows "vol_inv E (v, crash w) = vol_inv E (v, w)" and "vol_store E (v, crash w) = vol_store E (v, w)"
  by (simp_all add: vol_inv_def vol_open_def vol_store_def stored_block_def file_of_crash assms fun_eq_iff)

lemma free_durable:
  assumes "vol_inv E (v, w)" and "b \<notin> vol_free v" and "9 \<le> b" and "b < vv_total_blocks v"
  obtains v' w' where "free_block E v b w = (Inr (), v', w')" "vol_inv E (v', crash w')"
    "vol_store E (v', crash w') = (vol_store E (v, w))\<lparr>free_cells := insert b (vol_free v)\<rparr>"
proof -
  have v: "os_reliable E" "vol_open v w" using assms(1) by (simp_all add: vol_inv_def)
  then have wf: "vol_wf v" by (simp add: vol_open_def)
  show thesis
  proof (cases rule: free_block_cases [OF wf, of E b w, case_names same clears])
    case same
    with assms(2-4) show thesis by blast
  next
    case (clears i r w')
    obtain w1 where w1: "write_bitmap E (cleared i v) w = (Inr (), w1)" "vol_inv E (cleared i v, w1)"
      "vol_store E (cleared i v, w1) = (vol_store E (v, w))\<lparr>free_cells := insert (9 + of_nat i) (vol_free v)\<rparr>"
      by (rule cleared_refines [OF assms(1) clears(2,3)])
    have "vol_open (cleared i v) w"
      using v(2) cleared_wf [OF wf clears(2,3)] by (simp add: vol_open_def cleared_def)
    then obtain w2 where w2: "write_bitmap E (cleared i v) w = (Inr (), w2)"
      "durable_of (vv_file (cleared i v)) w2 = file_of (vv_file (cleared i v)) w2"
      by (rule write_bitmap_ok [OF v(1)]) blast
    have "w2 = w1" "w' = w1" "r = Inr ()" using w1(1) w2(1) clears(4) by simp_all
    with w1(2,3) w2(2) clears(1,5) show thesis by (intro that [of "cleared i v" w1]) (simp_all add: crash_synced)
  qed
qed

text \<open>C12: Erasing is final: on an open vault, erasing an allocated block succeeds, and even when the power fails right after the call the
  container holds random bytes in that block, which is free, and every other block as before.\<close>

theorem secure_erase_survives_crash:
  fixes s :: "'a lib_globals_scheme"
  assumes "vfs s = Some v" and "vol_inv E (v, s)" and "b \<notin> vol_free v" and "9 \<le> b" and "b < vv_total_blocks v"
  shows "\<exists>s' v'. secure_erase_block E b s = (0, s') \<and> vfs s' = Some v' \<and> vol_inv E (v', crash s') \<and>
    vol_store E (v', crash s') = (vol_store E (v, s))\<lparr>
      cells := (cells (vol_store E (v, s)))(b \<mapsto> fst (fill_bytes E PAYLOAD_SIZE s)), free_cells := insert b (vol_free v)\<rparr>"
proof -
  obtain d s1 where d: "fill_bytes E PAYLOAD_SIZE s = (d, s1)" by force
  then have len: "length d = PAYLOAD_SIZE" by (auto dest: fill_bytes_length)
  have s1: "vol_inv E (v, s1)" "vol_store E (v, s1) = vol_store E (v, s)"
    using d assms(2) by (auto simp: fill_bytes_def vol_inv_def vol_open_def linked_def file_of_def vol_store_def stored_block_def)
  obtain s2 where s2: "write_block E v b d s1 = (Inr (), s2)" "vol_inv E (v, s2)"
    "cells (vol_store E (v, s2)) = (cells (vol_store E (v, s1)))(b \<mapsto> d)"
    by (rule write_step [OF s1(1) assms(4,5) len])
  obtain v' s3 where s3: "free_block E v b s2 = (Inr (), v', s3)" "vol_inv E (v', crash s3)"
    "vol_store E (v', crash s3) = (vol_store E (v, s2))\<lparr>free_cells := insert b (vol_free v)\<rparr>"
    by (rule free_durable [OF s2(2) assms(3-5)])
  have st: "vol_store E (v, s2) = (vol_store E (v, s))\<lparr>cells := (cells (vol_store E (v, s)))(b \<mapsto> d)\<rparr>"
    by (rule block_store.equality) (simp_all add: s2(3) s1(2))
  let ?s' = "s3\<lparr>vfs := Some v'\<rparr>"
  have c: "crash ?s' = (crash s3)\<lparr>vfs := Some v'\<rparr>" by (simp add: crash_def)
  have "secure_erase_block E b s = (0, ?s')" using assms(1) d s2(1) s3(1) by (simp add: secure_erase_block_def)
  moreover have "vol_inv E (v', crash ?s')" using s3(2) by (simp add: c)
  moreover have "vol_store E (v', crash ?s') = (vol_store E (v, s))\<lparr>
      cells := (cells (vol_store E (v, s)))(b \<mapsto> d), free_cells := insert b (vol_free v)\<rparr>"
    using s3(3) st by (simp add: c)
  ultimately show ?thesis using d by auto
qed

definition demo_owner :: lib_globals where
  "demo_owner = demo_lib\<lparr>paths := paths demo_vault, inodes := inodes demo_vault, fds := fds demo_vault\<rparr>"

lemma demo_owner_inv: "vol_inv demo_env (demo_volume, demo_owner)"
  using demo_vault_open demo_vault_on_disk demo_os_reliable demo_chacha_laws demo_hash_sizes
  by (simp add: vol_inv_def vol_open_def linked_def file_of_def demo_owner_def)

theorem secure_erase_survives_crash_witness:
  "\<exists>v s s'. allocate_block demo_env demo_volume demo_owner = (Inr 9, v, s) \<and> secure_erase_block demo_env 9 (s\<lparr>vfs := Some v\<rparr>) = (0, s')"
proof -
  have free: "vol_free demo_volume = {9, 10, 11, 12}"
  proof -
    have "(\<lambda>i. 9 + of_nat i :: u64) ` {..<4} = {9, 10, 11, 12}" by (simp add: lessThan_nat_numeral lessThan_Suc insert_commute)
    then show ?thesis unfolding vol_free_image [OF demo_volume_wf] by (simp add: demo_volume_def data_n_def unmarked_zeros)
  qed
  then have ne: "vol_free demo_volume \<noteq> {}" and m: "Min (vol_free demo_volume) = 9" by simp_all
  obtain v s where a: "allocate_block demo_env demo_volume demo_owner = (Inr 9, v, s)" "vol_inv demo_env (v, s)"
    "vol_free v = vol_free demo_volume - {9}" "vv_total_blocks v = vv_total_blocks demo_volume"
    by (rule alloc_step [OF demo_owner_inv ne, unfolded m]) blast
  then have "9 \<notin> vol_free v" "9 < vv_total_blocks v" by (simp_all add: demo_volume_def)
  moreover have "vol_inv demo_env (v, s\<lparr>vfs := Some v\<rparr>)" using a(2) by simp
  ultimately show ?thesis using secure_erase_survives_crash [of "s\<lparr>vfs := Some v\<rparr>" v demo_env 9] a(1) by auto
qed

subsection \<open>Writing is not durable\<close>

definition keeps_durable :: "('a, 'w) io \<Rightarrow> bool" where
  "keeps_durable m \<longleftrightarrow> (\<forall>w fd. durable_of fd (snd (m w)) = durable_of fd w)"

lemma keeps_durable_bind: "keeps_durable m \<Longrightarrow> (\<And>x. keeps_durable (f x)) \<Longrightarrow> keeps_durable (io_bind m f)"
  by (auto simp: keeps_durable_def io_bind_def split: prod.split sum.split) (metis snd_conv)+

lemma keeps_durable_files:
  "keeps_durable (seek_start E fd off)" "keeps_durable (write_all E fd bs)" "keeps_durable (utimes E p ts)"
  "keeps_durable (fs_times E p)" "keeps_durable (check_data_block v b)" "keeps_durable (io_fail e)"
  unfolding seek_start_def utimes_def fs_times_def check_data_block_def
  by (auto simp: keeps_durable_def durable_of_def os_call_def io_bind_def lookup_path_def write_all_def put_bytes_def set_pos_def
      upd_inode_def os_tick_def io_fail_def io_return_def Let_def split: option.splits prod.splits sum.splits if_splits)

lemma keeps_durable_freeze: "keeps_durable (freeze_timestamps E v)"
  unfolding freeze_timestamps_def
  by (intro keeps_durable_bind) (auto simp: Let_def intro: keeps_durable_files split: prod.split)

lemma keeps_durable_encrypt:
  "(\<And>nonce ct. keeps_durable (f nonce ct)) \<Longrightarrow>
   keeps_durable (\<lambda>w. case fill_bytes E n w of (nonce, w) \<Rightarrow>
     (case chacha_encrypt E k nonce pt of None \<Rightarrow> (Inl OtherError, w) | Some ct \<Rightarrow> f nonce ct w))"
  by (auto simp: keeps_durable_def fill_bytes_def durable_of_def split: option.split)

lemma keeps_durable_write: "keeps_durable (write_block E v b pt)"
  unfolding write_block_def Let_def
  by (intro keeps_durable_encrypt keeps_durable_bind keeps_durable_files keeps_durable_freeze)

text \<open>Whatever \<^verbatim>\<open>write_vault_blocks\<close> reports, a power failure right after it leaves the file as the last flush did.\<close>

lemma write_loop_durable:
  fixes s :: "'a lib_globals_scheme"
  shows "durable_of fd (snd (write_blocks_loop E v b i m d c s)) = durable_of fd s"
proof (induction m arbitrary: i c s)
  case (Suc m)
  obtain x s1 where x: "write_block E v (b + of_nat i) (subslice (i * PAYLOAD_SIZE) ((i + 1) * PAYLOAD_SIZE) d) s = (x, s1)" by force
  with keeps_durable_write have "durable_of fd s1 = durable_of fd s" unfolding keeps_durable_def by (metis snd_conv)
  with Suc x show ?case by (simp split: sum.split)
qed simp

lemma written_blocks_are_volatile:
  fixes s :: "'a lib_globals_scheme"
  shows "file_of fd (crash (snd (write_vault_blocks E b n d s))) = durable_of fd s"
  by (simp add: file_of_crash write_vault_blocks_def write_loop_durable split: option.split)

end
