(* ===== verification/Vault_Crash.thy ===== *)
theory Vault_Crash
  imports Volume_Persist
begin

text \<open>
  Power failures at any moment, with any file call failing.  What was written since the last flush reaches the disk byte by byte or not
  at all, and a write that fails leaves a prefix.  Programs over the file system are reasoned about by triples with a second
  postcondition for the error exit, so that every failing call is a case of the proof.
\<close>

subsection \<open>Triples\<close>

definition triple :: "('w world_scheme \<Rightarrow> bool) \<Rightarrow> ('a, 'w) io \<Rightarrow> ('a \<Rightarrow> 'w world_scheme \<Rightarrow> bool) \<Rightarrow> ('w world_scheme \<Rightarrow> bool) \<Rightarrow> bool" where
  "triple P m Q R \<longleftrightarrow> (\<forall>w. P w \<longrightarrow> (case m w of (Inl e, w') \<Rightarrow> R w' | (Inr x, w') \<Rightarrow> Q x w'))"

lemma triple_bind:
  assumes "triple P m M R" and "\<And>x. triple (M x) (f x) Q R"
  shows "triple P (io_bind m f) Q R"
  using assms unfolding triple_def io_bind_def by (fastforce split: prod.splits sum.splits)

lemma triple_return: "(\<And>w. P w \<Longrightarrow> Q x w) \<Longrightarrow> triple P (io_return x) Q R"
  by (simp add: triple_def io_return_def)

lemma triple_fail: "(\<And>w. P w \<Longrightarrow> R w) \<Longrightarrow> triple P (io_fail e) Q R"
  by (simp add: triple_def io_fail_def)

lemma triple_weaken:
  "triple P' m Q' R' \<Longrightarrow> (\<And>w. P w \<Longrightarrow> P' w) \<Longrightarrow> (\<And>x w. Q' x w \<Longrightarrow> Q x w) \<Longrightarrow> (\<And>w. R' w \<Longrightarrow> R w) \<Longrightarrow> triple P m Q R"
  unfolding triple_def by (fastforce split: prod.splits sum.splits)

lemma triple_ok: "triple P m Q R \<Longrightarrow> P w \<Longrightarrow> m w = (Inr x, w') \<Longrightarrow> Q x w'"
  by (auto simp: triple_def)

lemma triple_err: "triple P m Q R \<Longrightarrow> P w \<Longrightarrow> m w = (Inl e, w') \<Longrightarrow> R w'"
  by (auto simp: triple_def)

subsection \<open>A container that keeps the marks of held blocks\<close>

definition held_in :: "u64 set \<Rightarrow> bytes \<Rightarrow> bool" where
  "held_in H bm \<longleftrightarrow> (\<forall>b. b \<in> H \<longrightarrow> unat (b - 9) div 8 < length bm \<and> \<not> bit_free bm (unat (b - 9)))"

text \<open>The file has its size, its superblock, and a mark for every held block.\<close>

definition safe :: "bytes \<Rightarrow> nat \<Rightarrow> u64 set \<Rightarrow> bytes \<Rightarrow> bool" where
  "safe raw L H c \<longleftrightarrow> length c = L \<and> 36864 \<le> L \<and> subslice 0 4096 c = raw \<and> held_in H (subslice 4096 36864 c)"

text \<open>What a crash may leave of a file with the durable content \<open>d\<close> and the cached content \<open>c\<close>.\<close>

definition torn :: "bytes \<Rightarrow> bytes \<Rightarrow> bytes \<Rightarrow> bool" where
  "torn d c t \<longleftrightarrow> (length t = length c \<or> length t = length d) \<and>
     (\<forall>i. i < length t \<longrightarrow> i < length c \<and> t ! i = c ! i \<or> i < length d \<and> t ! i = d ! i)"

lemma safe_torn:
  assumes "safe raw L H d" and "safe raw L H c" and "torn d c t"
  shows "safe raw L H t"
proof -
  have len: "length d = L" "length c = L" "length t = L" "36864 \<le> L" using assms by (auto simp: safe_def torn_def)
  have nth: "i < L \<Longrightarrow> t ! i = c ! i \<or> t ! i = d ! i" for i using assms(3) len by (auto simp: torn_def)
  have eq: "subslice 0 4096 c = raw" "subslice 0 4096 d = raw" using assms(1,2) by (simp_all add: safe_def)
  have "subslice 0 4096 t = raw"
  proof (rule nth_equalityI)
    show "length (subslice 0 4096 t) = length raw" using len arg_cong [OF eq(1), of length] by (simp add: len_simps)
    fix i assume "i < length (subslice 0 4096 t)"
    then have i: "i < 4096" by (simp add: len_simps)
    then have "c ! i = raw ! i" "d ! i = raw ! i" using len nth_subslice [of i 4096 0 c] nth_subslice [of i 4096 0 d] eq by simp_all
    with nth [of i] i len show "subslice 0 4096 t ! i = raw ! i" by (auto simp: nth_subslice)
  qed
  moreover have "held_in H (subslice 4096 36864 t)" unfolding held_in_def
  proof (intro allI impI conjI)
    fix b assume b: "b \<in> H"
    let ?i = "unat (b - 9) div 8"
    have cd: "\<not> bit_free (subslice 4096 36864 x) (unat (b - 9)) \<and> ?i < 32768" if "safe raw L H x" for x
      using that b len by (auto simp: safe_def held_in_def len_simps)
    then have i: "?i < 32768" using assms(1) by blast
    then show "?i < length (subslice 4096 36864 t)" using len by (simp add: len_simps)
    show "\<not> bit_free (subslice 4096 36864 t) (unat (b - 9))"
      using cd [OF assms(1)] cd [OF assms(2)] nth [of "4096 + ?i"] i len by (auto simp: bit_free_bit nth_subslice)
  qed
  ultimately show ?thesis using len by (simp add: safe_def)
qed

lemma safe_data:
  assumes "safe raw L H c" and "36864 \<le> p" and "p + length bs \<le> L"
  shows "safe raw L H (copy_at p bs c)"
  using assms subslice_copy_at_disjoint [of p bs c 4096 0] subslice_copy_at_disjoint [of p bs c 36864 4096]
  by (simp add: safe_def length_copy_at)

lemma safe_bitmap:
  assumes "safe raw L H c" and "held_in H bm" and "length bm = 32768"
  shows "safe raw L H (copy_at 4096 (take k bm) c)"
proof -
  let ?c = "copy_at 4096 (take k bm) c"
  have len: "length c = L" "36864 \<le> L" "length ?c = L" using assms(1,3) by (auto simp: safe_def length_copy_at)
  have nth: "subslice 4096 36864 ?c ! i = (if i < k then bm ! i else subslice 4096 36864 c ! i)" if "i < 32768" for i
    using that len assms(3) by (auto simp: nth_subslice) (auto simp: copy_at_def nth_append)
  have "held_in H (subslice 4096 36864 ?c)"
    using assms len nth by (auto simp: held_in_def safe_def bit_free_bit len_simps)
  moreover have "subslice 0 4096 ?c = subslice 0 4096 c"
    using len assms(3) by (intro subslice_copy_at_disjoint) auto
  ultimately show ?thesis using assms(1) len by (simp add: safe_def)
qed

subsection \<open>The file calls\<close>

text \<open>The descriptor and the path lead to a file whose cached and durable content are safe.\<close>

definition at_rest :: "bytes \<Rightarrow> nat \<Rightarrow> u64 set \<Rightarrow> bytes \<Rightarrow> nat \<Rightarrow> 'w world_scheme \<Rightarrow> bool" where
  "at_rest raw L H path fd w \<longleftrightarrow> linked path fd w \<and> safe raw L H (file_of fd w) \<and> safe raw L H (durable_of fd w)"

lemma at_rest_frame [simp]:
  "at_rest raw L H path fd (os_tick w) = at_rest raw L H path fd w"
  "at_rest raw L H path fd (set_pos fd' p w) = at_rest raw L H path fd w"
  "at_rest raw L H path fd (snd (fill_bytes E n w)) = at_rest raw L H path fd w"
  by (simp_all add: at_rest_def frame_simps)

lemma at_rest_times [simp]:
  "at_rest raw L H path fd (upd_inode i (\<lambda>d. d\<lparr>atime := x, mtime := y\<rparr>) w) = at_rest raw L H path fd w"
  "at_rest raw L H path fd (upd_inode i (\<lambda>d. d\<lparr>atime := x\<rparr>) w) = at_rest raw L H path fd w"
  by (simp_all add: at_rest_def linked_def file_of_def durable_of_def upd_inode_def)

lemma seek_triple:
  "triple (at_rest raw L H path fd) (seek_start E fd off) (\<lambda>_ w. at_rest raw L H path fd w \<and> fd_pos (fds w fd) = off)
     (at_rest raw L H path fd)"
  by (simp add: triple_def seek_start_def os_call_def frame_simps split: option.split)

lemma write_triple:
  assumes "\<And>k c. safe raw L H c \<Longrightarrow> safe raw L H (copy_at p (take k bs) c)" and "p + length bs \<le> L"
  shows "triple (\<lambda>w. at_rest raw L H path fd w \<and> fd_pos (fds w fd) = p) (write_all E fd bs)
    (\<lambda>_ w. at_rest raw L H path fd w \<and> fd_pos (fds w fd) = p + length bs \<and> (\<exists>c. safe raw L H c \<and> file_of fd w = copy_at p bs c))
    (at_rest raw L H path fd)"
proof -
  have "file_of fd (put_bytes E fd (take k bs) (os_tick w)) = copy_at p (take k bs) (file_of fd w)"
    if "at_rest raw L H path fd w" "fd_pos (fds w fd) = p" for k and w :: "'a world_scheme"
    using that assms(2) by (auto simp: at_rest_def safe_def frame_simps store_at_in_range copy_at_def)
  then have put: "at_rest raw L H path fd (put_bytes E fd (take k bs) (os_tick w)) \<and>
      file_of fd (put_bytes E fd (take k bs) (os_tick w)) = copy_at p (take k bs) (file_of fd w)"
    if "at_rest raw L H path fd w" "fd_pos (fds w fd) = p" for k and w :: "'a world_scheme"
    using that assms(1) by (simp add: at_rest_def frame_simps)
  show ?thesis unfolding triple_def
  proof (intro allI impI, elim conjE)
    fix w :: "'a world_scheme" assume w: "at_rest raw L H path fd w" "fd_pos (fds w fd) = p"
    then have "safe raw L H (file_of fd w)" by (simp add: at_rest_def)
    then show "case write_all E fd bs w of
        (Inl e, w') \<Rightarrow> at_rest raw L H path fd w'
      | (Inr x, w') \<Rightarrow> at_rest raw L H path fd w' \<and> fd_pos (fds w' fd) = p + length bs \<and> (\<exists>c. safe raw L H c \<and> file_of fd w' = copy_at p bs c)"
      using put [OF w] put [OF w, of "length bs"] w(2)
      by (auto simp: write_all_def frame_simps(1-8) split: option.split) (simp_all add: frame_simps)
  qed
qed

lemma sync_triple:
  "triple (\<lambda>w. at_rest raw L H path fd w \<and> safe raw L H' (file_of fd w)) (sync_all E fd) (\<lambda>_. at_rest raw L H' path fd) (at_rest raw L H path fd)"
  by (auto simp: triple_def sync_all_def os_call_def at_rest_def linked_def file_of_def durable_of_def upd_inode_def os_tick_def
      split: option.split)

lemma freeze_triple: "triple (at_rest raw L H path fd) (freeze_timestamps E v) (\<lambda>_. at_rest raw L H path fd) (at_rest raw L H path fd)"
  by (auto simp: triple_def freeze_timestamps_def fs_times_def utimes_def io_bind_def os_call_def lookup_path_def io_fail_def Let_def
      split: option.splits prod.splits sum.splits if_splits)

lemma read_triple:
  "triple (\<lambda>w. at_rest raw L H path fd w \<and> fd_pos (fds w fd) = off) (read_exact E fd n)
     (\<lambda>bs w. at_rest raw L H path fd w \<and> (\<exists>c. safe raw L H c \<and> off + n \<le> L \<and> bs = subslice off (off + n) c)) (at_rest raw L H path fd)"
proof -
  have "safe raw L H (content (inodes w (fd_ino (fds w fd)))) \<and> length (content (inodes w (fd_ino (fds w fd)))) = L"
    if "at_rest raw L H path fd w" for w :: "'a world_scheme" using that by (auto simp: at_rest_def safe_def file_of_def)
  moreover have "inodes (os_tick w) = inodes w" "fds (os_tick w) = fds w" for w :: "'a world_scheme" by (simp_all add: os_tick_def)
  ultimately show ?thesis
    by (auto simp: triple_def read_exact_def os_call_def Let_def split: option.split)
qed

subsection \<open>The container's methods\<close>

lemma at_rest_mono: "at_rest raw L H' path fd w \<Longrightarrow> H \<subseteq> H' \<Longrightarrow> at_rest raw L H path fd w"
  by (auto simp: at_rest_def safe_def held_in_def)

text \<open>Writing a bitmap that marks more blocks: on success the new marks are durable, and whichever call fails, the old ones are.\<close>

lemma write_bitmap_triple:
  assumes "held_in H' (vv_bitmap v)" and "H \<subseteq> H'" and "length (vv_bitmap v) = 32768"
  shows "triple (at_rest raw L H path (vv_file v)) (write_bitmap E v) (\<lambda>_. at_rest raw L H' path (vv_file v)) (at_rest raw L H path (vv_file v))"
proof (cases "36864 \<le> L")
  case True
  let ?J = "at_rest raw L H path (vv_file v)" and ?F = "file_of (vv_file v)"
  have H: "held_in H (vv_bitmap v)" using assms(1,2) by (auto simp: held_in_def)
  have full: "safe raw L H' (copy_at 4096 (vv_bitmap v) c)" if "safe raw L H c" for c
  proof -
    have "subslice 4096 36864 (copy_at 4096 (vv_bitmap v) c) = vv_bitmap v"
      using that assms(3) by (intro subslice_copy_at) (simp_all add: safe_def)
    with that safe_bitmap [OF that H assms(3), of 32768] assms(1,3) show ?thesis by (simp add: safe_def)
  qed
  have w: "triple (\<lambda>w. ?J w \<and> fd_pos (fds w (vv_file v)) = 4096) (write_all E (vv_file v) (vv_bitmap v))
      (\<lambda>_ w. ?J w \<and> safe raw L H' (?F w)) ?J"
    by (rule triple_weaken [OF write_triple [where raw = raw and L = L and H = H and p = 4096]])
      (use safe_bitmap [OF _ H assms(3)] assms(3) True full in auto)
  have f: "triple (at_rest raw L H' path (vv_file v)) (freeze_timestamps E v) (\<lambda>_. at_rest raw L H' path (vv_file v)) ?J"
    by (rule triple_weaken [OF freeze_triple [where H = H']]) (auto intro: at_rest_mono [OF _ assms(2)])
  show ?thesis unfolding write_bitmap_def layout_offsets
    by (rule triple_bind [OF seek_triple], rule triple_bind [OF w], rule triple_bind [OF sync_triple], rule f)
qed (simp add: triple_def at_rest_def safe_def)

lemma triple_check:
  "((9 \<le> b \<and> b < vv_total_blocks v) \<Longrightarrow> triple P (f ()) Q R) \<Longrightarrow> (\<And>w. P w \<Longrightarrow> R w) \<Longrightarrow> triple P (io_bind (check_data_block v b) f) Q R"
  by (auto simp: check_data_block_def triple_def io_bind_def io_fail_def io_return_def not_less not_le)

lemma read_block_triple:
  "triple (at_rest raw L H path (vv_file v)) (read_block E v b) (\<lambda>_. at_rest raw L H path (vv_file v)) (at_rest raw L H path (vv_file v))"
  unfolding read_block_def Let_def
  by (rule triple_check, rule triple_bind [OF seek_triple], rule triple_bind [OF read_triple])
    (auto split: option.split intro!: triple_fail triple_return)

lemma block_offset:
  assumes "vol_wf v" and "9 \<le> b" and "b < vv_total_blocks v"
  shows "unat (b * of_nat BLOCK_SIZE) = unat b * BLOCK_SIZE"
    and "unat b * BLOCK_SIZE + BLOCK_SIZE \<le> unat (vv_total_blocks v) * BLOCK_SIZE"
proof -
  have t: "unat (vv_total_blocks v) \<le> 262153" using assms(1) by (simp add: vol_wf_def word_le_nat_alt)
  moreover have lt: "unat b < unat (vv_total_blocks v)" using assms(3) by (simp add: word_less_nat_alt)
  ultimately have "unat b * BLOCK_SIZE < 2 ^ 64" by (simp add: BLOCK_SIZE_def)
  then show "unat (b * of_nat BLOCK_SIZE) = unat b * BLOCK_SIZE" by (simp add: unat_word_ariths BLOCK_SIZE_def)
  from lt have "Suc (unat b) * BLOCK_SIZE \<le> unat (vv_total_blocks v) * BLOCK_SIZE" by (intro mult_le_mono1) simp
  then show "unat b * BLOCK_SIZE + BLOCK_SIZE \<le> unat (vv_total_blocks v) * BLOCK_SIZE" by simp
qed

lemma triple_encrypt:
  assumes "chacha_laws E" and "hash_sizes E" and "length pt = PAYLOAD_SIZE"
    and "\<And>nonce ct. length nonce = 12 \<Longrightarrow> length ct = 4084 \<Longrightarrow> triple (at_rest raw L H path fd) (f nonce ct) Q (at_rest raw L H path fd)"
  shows "triple (at_rest raw L H path fd) (\<lambda>w. case fill_bytes E NONCE_SIZE w of (nonce, w) \<Rightarrow>
     (case chacha_encrypt E (derive_block_key E k b) nonce pt of None \<Rightarrow> (Inl OtherError, w) | Some ct \<Rightarrow> f nonce ct w)) Q (at_rest raw L H path fd)"
  unfolding triple_def
proof (intro allI impI)
  fix w :: "'a world_scheme" assume w: "at_rest raw L H path fd w"
  obtain nonce w1 where n: "fill_bytes E NONCE_SIZE w = (nonce, w1)" by force
  then have len: "length nonce = 12" by (auto simp: NONCE_SIZE_def dest: fill_bytes_length)
  have w1: "at_rest raw L H path fd w1" using w n at_rest_frame(3) [of raw L H path fd E NONCE_SIZE w] by simp
  have "length ct = 4084" if "chacha_encrypt E (derive_block_key E k b) nonce pt = Some ct" for ct
    using chacha_encrypt_length [OF assms(1) block_key_length [OF assms(2)] len that] assms(3) by (simp add: PAYLOAD_SIZE_def BLOCK_SIZE_def)
  with w1 n len assms(4) [unfolded triple_def] show "case (case fill_bytes E NONCE_SIZE w of (nonce, w) \<Rightarrow>
      (case chacha_encrypt E (derive_block_key E k b) nonce pt of None \<Rightarrow> (Inl OtherError, w) | Some ct \<Rightarrow> f nonce ct w)) of
      (Inl e, w') \<Rightarrow> at_rest raw L H path fd w' | (Inr x, w') \<Rightarrow> Q x w'"
    by (auto split: option.split)
qed

lemma write_block_triple:
  assumes "vol_wf v" and "chacha_laws E" and "hash_sizes E" and "length pt = PAYLOAD_SIZE" and "L = unat (vv_total_blocks v) * BLOCK_SIZE"
  shows "triple (at_rest raw L H path (vv_file v)) (write_block E v b pt) (\<lambda>_. at_rest raw L H path (vv_file v)) (at_rest raw L H path (vv_file v))"
proof -
  let ?J = "at_rest raw L H path (vv_file v)" and ?p = "unat b * BLOCK_SIZE" and ?fd = "vv_file v"
  have "triple ?J (io_bind (seek_start E ?fd (unat (b * of_nat BLOCK_SIZE))) (\<lambda>_. io_bind (write_all E ?fd nonce) (\<lambda>_.
      io_bind (write_all E ?fd ct) (\<lambda>_. freeze_timestamps E v)))) (\<lambda>_. ?J) ?J"
    if b: "9 \<le> b" "b < vv_total_blocks v" and len: "length nonce = 12" "length ct = 4084" for nonce ct
  proof -
    note off = block_offset [OF assms(1) b]
    have "9 \<le> unat b" using b(1) by (simp add: word_le_nat_alt)
    then have p: "36864 \<le> ?p" "?p + 4096 \<le> L" using off(2) assms(5) by (simp_all add: BLOCK_SIZE_def)
    have w1: "triple (\<lambda>w. ?J w \<and> fd_pos (fds w ?fd) = ?p) (write_all E ?fd nonce) (\<lambda>_ w. ?J w \<and> fd_pos (fds w ?fd) = ?p + 12) ?J"
      by (rule triple_weaken [OF write_triple [where raw = raw and L = L and H = H and p = ?p]])
        (use p len in \<open>auto intro!: safe_data\<close>)
    have w2: "triple (\<lambda>w. ?J w \<and> fd_pos (fds w ?fd) = ?p + 12) (write_all E ?fd ct) (\<lambda>_. ?J) ?J"
      by (rule triple_weaken [OF write_triple [where raw = raw and L = L and H = H and p = "?p + 12"]])
        (use p len in \<open>auto intro!: safe_data\<close>)
    show ?thesis unfolding off(1)
      by (rule triple_bind [OF seek_triple], rule triple_bind [OF w1], rule triple_bind [OF w2], rule freeze_triple)
  qed
  then show ?thesis unfolding write_block_def Let_def
    by (intro triple_check triple_encrypt [OF assms(2-4)]) auto
qed

text \<open>Opening the file that is at the path.\<close>

definition found_at :: "bytes \<Rightarrow> nat \<Rightarrow> u64 set \<Rightarrow> bytes \<Rightarrow> 'w world_scheme \<Rightarrow> bool" where
  "found_at raw L H path w \<longleftrightarrow> (\<exists>i. paths w path = Some i \<and> safe raw L H (content (inodes w i)) \<and> safe raw L H (durable (inodes w i)))"

lemma triple_any: "triple P m Q R \<Longrightarrow> triple P m Q (\<lambda>_. True)"
  by (erule triple_weaken) simp_all

lemma triple_pure: "(p \<Longrightarrow> triple P m Q R) \<Longrightarrow> triple (\<lambda>w. P w \<and> p) m Q R"
  by (auto simp: triple_def)

lemma open_rw_triple: "triple (found_at raw L H path) (open_rw E path) (\<lambda>fd. at_rest raw L H path fd) (\<lambda>_. True)"
  by (auto simp: triple_def open_rw_def os_call_def io_bind_def lookup_path_def new_fd_def found_at_def at_rest_def linked_def file_of_def
      durable_of_def os_tick_def split: option.split)

lemma open_existing_triple:
  assumes "read_superblock raw = Some sb"
  shows "triple (found_at raw L H path) (open_existing E path key)
    (\<lambda>v w. at_rest raw L H path (vv_file v) w \<and> vv_path v = path \<and> vv_total_blocks v = sb_total_blocks sb \<and> vol_wf v \<and> held_in H (vv_bitmap v))
    (\<lambda>_. True)"
proof -
  have sup: "triple (\<lambda>w. at_rest raw L H path fd w \<and> fd_pos (fds w fd) = 0) (read_exact E fd BLOCK_SIZE)
      (\<lambda>bs w. at_rest raw L H path fd w \<and> bs = raw) (\<lambda>_. True)" for fd
    by (rule triple_weaken [OF read_triple [where raw = raw and L = L and H = H]]) (auto simp: safe_def BLOCK_SIZE_def)
  have bit: "triple (\<lambda>w. at_rest raw L H path fd w \<and> fd_pos (fds w fd) = 4096) (read_exact E fd 32768)
      (\<lambda>bs w. at_rest raw L H path fd w \<and> length bs = 32768 \<and> held_in H bs) (\<lambda>_. True)" for fd
    by (rule triple_weaken [OF read_triple [where raw = raw and L = L and H = H]]) (auto simp: safe_def len_simps)
  note seek = triple_any [OF seek_triple]
  have result: "triple (\<lambda>w. at_rest raw L H path fd w \<and> length bs = 32768 \<and> held_in H bs)
      (io_return \<lparr>vv_file = fd, vv_master_key = key, vv_total_blocks = sb_total_blocks sb,
         vv_free_blocks = count_free bs (unat (sb_total_blocks sb - 9)), vv_bitmap = bs, vv_path = path, vv_bitmap_write_count = 0\<rparr>)
      (\<lambda>v w. at_rest raw L H path (vv_file v) w \<and> vv_path v = path \<and> vv_total_blocks v = sb_total_blocks sb \<and> vol_wf v \<and> held_in H (vv_bitmap v))
      (\<lambda>_. True)" if "\<not> sb_total_blocks sb < 9" "\<not> 262153 < sb_total_blocks sb" for fd bs
    using that by (auto simp: triple_def io_return_def vol_wf_def bitmap_wf_def data_n_def count_free_card not_less)
  show ?thesis unfolding open_existing_def Let_def layout_offsets
    by (rule triple_bind [OF open_rw_triple], rule triple_bind [OF seek], rule triple_bind [OF sup], rule triple_pure)
      (auto simp: assms intro!: triple_fail triple_bind [OF seek] triple_bind [OF bit] result)
qed

subsection \<open>The life of a vault\<close>

text \<open>What a power failure may leave: the paths, and of each file a mixture of what was flushed and what was only written.  The process
  that finds it has its own descriptors and globals.\<close>

definition crash_to :: "'w world_scheme \<Rightarrow> 'w world_scheme \<Rightarrow> bool" where
  "crash_to w t \<longleftrightarrow> paths t = paths w \<and>
     (\<forall>i. torn (durable (inodes w i)) (content (inodes w i)) (content (inodes t i)) \<and> durable (inodes t i) = content (inodes t i))"

text \<open>The client holds the blocks that an allocation returned and that it has not tried to free.  Any call may fail on the way.\<close>

inductive vault_life :: "env \<Rightarrow> u64 set \<times> virtual_volume \<times> 'w world_scheme \<Rightarrow> u64 set \<times> virtual_volume \<times> 'w world_scheme \<Rightarrow> bool"
  for E where
  life_alloc: "allocate_block E v w = (Inr b, v', w') \<Longrightarrow> vault_life E (H, v, w) (insert b H, v', w')"
| life_full: "allocate_block E v w = (Inl e, v', w') \<Longrightarrow> vault_life E (H, v, w) (H, v', w')"
| life_free: "free_block E v b w = (r, v', w') \<Longrightarrow> vault_life E (H, v, w) (H - {b}, v', w')"
| life_reserve: "reserve_block E v b w = (r, v', w') \<Longrightarrow> vault_life E (H, v, w) (H, v', w')"
| life_write: "length d = PAYLOAD_SIZE \<Longrightarrow> write_block E v b d w = (r, w') \<Longrightarrow> vault_life E (H, v, w) (H, v, w')"
| life_read: "read_block E v b w = (r, w') \<Longrightarrow> vault_life E (H, v, w) (H, v, w')"
| life_restart: "crash_to w t \<Longrightarrow> open_existing E (vv_path v) key t = (Inr v', w') \<Longrightarrow> vault_life E (H, v, w) (H, v', w')"

inductive_cases vault_lifeE: "vault_life E (H, v, w) c"

definition life_inv :: "u64 set \<times> virtual_volume \<times> 'w world_scheme \<Rightarrow> bool" where
  "life_inv = (\<lambda>(H, v, w). vol_wf v \<and> held_in H (vv_bitmap v) \<and>
     (\<exists>raw sb. read_superblock raw = Some sb \<and> sb_total_blocks sb = vv_total_blocks v \<and>
        at_rest raw (unat (vv_total_blocks v) * BLOCK_SIZE) H (vv_path v) (vv_file v) w))"

lemma held_free: "held_in H (vv_bitmap v) \<Longrightarrow> H \<inter> vol_free v = {}"
  by (auto simp: held_in_def vol_free_def)

lemma held_mark:
  assumes "vol_wf v" and "i < data_n v" and "held_in H (vv_bitmap v)"
  shows "held_in (insert (9 + of_nat i) H) (vv_bitmap (marked i v))"
proof -
  have i: "i div 8 < length (vv_bitmap v)" using data_n_le [OF assms(1)] assms(1,2) by (auto simp: vol_wf_def bitmap_wf_def)
  then show ?thesis
    using assms block_index [OF assms(1,2)] by (auto simp: held_in_def marked_def bit_free_mark) (simp_all add: bit_mark_def)
qed

lemma held_clear:
  assumes "vol_wf v" and "i < data_n v" and "held_in H (vv_bitmap v)"
  shows "held_in (H - {9 + of_nat i}) (vv_bitmap (cleared i v))"
proof -
  have i: "i div 8 < length (vv_bitmap v)" using data_n_le [OF assms(1)] assms(1,2) by (auto simp: vol_wf_def bitmap_wf_def)
  have "b = 9 + of_nat i" if "unat (b - 9) = i" for b :: u64 by (simp flip: that)
  with i assms(3) show ?thesis by (auto simp: held_in_def cleared_def bit_free_clear) (simp_all add: bit_clear_def)
qed

text \<open>Changing the bitmap in memory and writing it.\<close>

lemma bitmap_life:
  assumes "life_inv (H, v, w)" and "vol_wf v'" and "vv_file v' = vv_file v" "vv_path v' = vv_path v" "vv_total_blocks v' = vv_total_blocks v"
    and "H0 \<subseteq> H" and "H0 \<subseteq> H'" and "held_in H' (vv_bitmap v')" and "write_bitmap E v' w = (r, w')"
  shows "life_inv (H0, v', w') \<and> (r = Inr () \<longrightarrow> life_inv (H', v', w'))"
proof -
  from assms(1) obtain raw sb where raw: "read_superblock raw = Some sb" "sb_total_blocks sb = vv_total_blocks v"
    "at_rest raw (unat (vv_total_blocks v) * BLOCK_SIZE) H (vv_path v) (vv_file v) w" by (auto simp: life_inv_def)
  let ?J = "\<lambda>H. at_rest raw (unat (vv_total_blocks v') * BLOCK_SIZE) H (vv_path v') (vv_file v')"
  have J0: "?J H0 w" using raw(3) assms(3-6) by (auto intro: at_rest_mono)
  have t: "triple (?J H0) (write_bitmap E v') (\<lambda>_. ?J H') (?J H0)"
    using assms(2) by (intro write_bitmap_triple [OF assms(8,7)]) (simp add: vol_wf_def bitmap_wf_def)
  have "?J H0 w' \<and> (r = Inr () \<longrightarrow> ?J H' w')"
    using triple_ok [OF t J0] triple_err [OF t J0] assms(9) by (cases r) (auto intro: at_rest_mono [OF _ assms(7)])
  moreover have "held_in H0 (vv_bitmap v')" using assms(7,8) by (auto simp: held_in_def)
  ultimately show ?thesis using assms(2,5,8) raw(1,2) by (auto simp: life_inv_def)
qed

lemma marked_life:
  assumes "life_inv (H, v, w)" and "i < data_n v" and "bit_free (vv_bitmap v) i" and "write_bitmap E (marked i v) w = (r, w')"
  shows "life_inv (H, marked i v, w') \<and> (r = Inr () \<longrightarrow> life_inv (insert (9 + of_nat i) H, marked i v, w'))"
proof -
  have wf: "vol_wf v" "held_in H (vv_bitmap v)" using assms(1) by (simp_all add: life_inv_def)
  show ?thesis
    by (rule bitmap_life [OF assms(1) _ _ _ _ _ _ held_mark [OF wf(1) assms(2) wf(2)] assms(4)])
      (use marked_wf [OF wf(1) assms(2,3)] in \<open>auto simp: marked_def\<close>)
qed

lemma cleared_life:
  assumes "life_inv (H, v, w)" and "i < data_n v" and "\<not> bit_free (vv_bitmap v) i" and "write_bitmap E (cleared i v) w = (r, w')"
  shows "life_inv (H - {9 + of_nat i}, cleared i v, w')"
proof -
  have wf: "vol_wf v" "held_in H (vv_bitmap v)" using assms(1) by (simp_all add: life_inv_def)
  have "life_inv (H - {9 + of_nat i}, cleared i v, w') \<and> (r = Inr () \<longrightarrow> life_inv (H - {9 + of_nat i}, cleared i v, w'))"
    by (rule bitmap_life [OF assms(1) _ _ _ _ _ _ held_clear [OF wf(1) assms(2) wf(2)] assms(4)])
      (use cleared_wf [OF wf(1) assms(2,3)] in \<open>auto simp: cleared_def\<close>)
  then show ?thesis by blast
qed

lemma life_inv_less: "life_inv (H, v, w) \<Longrightarrow> H' \<subseteq> H \<Longrightarrow> life_inv (H', v, w)"
  by (simp add: life_inv_def held_in_def) (blast intro: at_rest_mono)

lemma alloc_life:
  assumes "life_inv (H, v, w)" and "allocate_block E v w = (r, v', w')"
  shows "life_inv (H, v', w') \<and> (r = Inr b \<longrightarrow> b \<in> vol_free v \<and> life_inv (insert b H, v', w'))"
proof -
  have wf: "vol_wf v" using assms(1) by (simp add: life_inv_def)
  show ?thesis
  proof (cases rule: allocate_block_cases [OF wf, of E w, case_names full found])
    case full
    with assms show ?thesis by auto
  next
    case (found i)
    obtain x w1 where x: "write_bitmap E (marked i v) w = (x, w1)" by force
    have "9 + of_nat i \<in> vol_free v" using found(1,2) by (auto simp: vol_free_image [OF wf] unmarked_free)
    with marked_life [OF assms(1) found(1,2) x] found(4) assms(2) x show ?thesis by (auto split: sum.splits)
  qed
qed

lemma free_life:
  assumes "life_inv (H, v, w)" and "free_block E v b w = (r, v', w')"
  shows "life_inv (H - {b}, v', w')"
proof -
  have wf: "vol_wf v" using assms(1) by (simp add: life_inv_def)
  show ?thesis
  proof (cases rule: free_block_cases [OF wf, of E b w, case_names same clears])
    case same
    with assms life_inv_less [OF assms(1), of "H - {b}"] show ?thesis by auto
  next
    case (clears i x w1)
    with cleared_life [OF assms(1) clears(2,3,4)] assms(2) show ?thesis by simp
  qed
qed

lemma reserve_life:
  assumes "life_inv (H, v, w)" and "reserve_block E v b w = (r, v', w')"
  shows "life_inv (H, v', w')"
proof -
  have wf: "vol_wf v" using assms(1) by (simp add: life_inv_def)
  show ?thesis
  proof (cases rule: reserve_block_cases [OF wf, of E b w, case_names same marks])
    case (same x)
    with assms show ?thesis by simp
  next
    case (marks i x w1)
    with marked_life [OF assms(1) marks(2,3,4)] assms(2) show ?thesis by simp
  qed
qed

lemma block_life:
  assumes "life_inv (H, v, w)"
    and "\<And>raw L. L = unat (vv_total_blocks v) * BLOCK_SIZE \<Longrightarrow>
      triple (at_rest raw L H (vv_path v) (vv_file v)) m (\<lambda>_. at_rest raw L H (vv_path v) (vv_file v)) (at_rest raw L H (vv_path v) (vv_file v))"
    and "m w = (r, w')"
  shows "life_inv (H, v, w')"
proof -
  from assms(1) obtain raw sb where raw: "read_superblock raw = Some sb" "sb_total_blocks sb = vv_total_blocks v"
    "at_rest raw (unat (vv_total_blocks v) * BLOCK_SIZE) H (vv_path v) (vv_file v) w" by (auto simp: life_inv_def)
  note t = assms(2) [OF refl]
  have "at_rest raw (unat (vv_total_blocks v) * BLOCK_SIZE) H (vv_path v) (vv_file v) w'"
    using triple_ok [OF t raw(3)] triple_err [OF t raw(3)] assms(3) by (cases r) auto
  with assms(1) raw(1,2) show ?thesis by (auto simp: life_inv_def)
qed

lemma restart_life:
  assumes "life_inv (H, v, w)" and "crash_to w t" and "open_existing E (vv_path v) key t = (Inr v', w')"
  shows "life_inv (H, v', w')"
proof -
  from assms(1) obtain raw sb where raw: "read_superblock raw = Some sb" "sb_total_blocks sb = vv_total_blocks v"
    "at_rest raw (unat (vv_total_blocks v) * BLOCK_SIZE) H (vv_path v) (vv_file v) w" by (auto simp: life_inv_def)
  have "found_at raw (unat (vv_total_blocks v) * BLOCK_SIZE) H (vv_path v) t"
    using raw(3) assms(2) by (auto simp: at_rest_def linked_def found_at_def crash_to_def file_of_def durable_of_def intro: safe_torn)
  from triple_ok [OF open_existing_triple [OF raw(1)] this assms(3)] raw(1,2) show ?thesis by (auto simp: life_inv_def)
qed

lemma life_inv_step:
  assumes "chacha_laws E" and "hash_sizes E" and "vault_life E c c'" and "life_inv c"
  shows "life_inv c'"
  using assms(3)
proof cases
  case (life_alloc v w b v' w' H)
  with alloc_life [of H v w E "Inr b" v' w' b] assms(4) show ?thesis by simp
next
  case (life_full v w e v' w' H)
  with alloc_life [of H v w E "Inl e" v' w'] assms(4) show ?thesis by simp
next
  case (life_free v b w r v' w' H)
  with free_life [of H v w E b r v' w'] assms(4) show ?thesis by simp
next
  case (life_reserve v b w r v' w' H)
  with reserve_life [of H v w E b r v' w'] assms(4) show ?thesis by simp
next
  case (life_write d v b w r w' H)
  then have inv: "life_inv (H, v, w)" and wf: "vol_wf v" using assms(4) by (auto simp: life_inv_def)
  from block_life [OF inv write_block_triple [OF wf assms(1,2) life_write(3)] life_write(4)] life_write(2) show ?thesis by simp
next
  case (life_read v b w r w' H)
  then have inv: "life_inv (H, v, w)" using assms(4) by simp
  from block_life [OF inv read_block_triple life_read(3)] life_read(2) show ?thesis by simp
next
  case (life_restart w t v key v' w' H)
  with restart_life [of H v w t E key v' w'] assms(4) show ?thesis by simp
qed

lemma life_inv_start:
  assumes "vol_open v w" and "on_disk E v (file_of (vv_file v) w)" and "durable_of (vv_file v) w = file_of (vv_file v) w"
  shows "life_inv ({}, v, w)"
proof -
  from assms(2) obtain sb where sb: "read_superblock (subslice 0 4096 (file_of (vv_file v) w)) = Some sb" "sb_total_blocks sb = vv_total_blocks v"
    by (auto simp: on_disk_def)
  have "36864 \<le> length (file_of (vv_file v) w)" using on_disk_length [OF _ assms(2)] assms(1) by (simp add: vol_open_def)
  then have "at_rest (subslice 0 4096 (file_of (vv_file v) w)) (unat (vv_total_blocks v) * BLOCK_SIZE) {} (vv_path v) (vv_file v) w"
    using assms(1,3) by (simp add: at_rest_def safe_def held_in_def vol_open_def)
  with sb assms(1) show ?thesis by (auto simp: life_inv_def held_in_def vol_open_def)
qed

lemma life_inv_reachable:
  assumes "chacha_laws E" and "hash_sizes E" and "(vault_life E)\<^sup>*\<^sup>* c c'" and "life_inv c"
  shows "life_inv c'"
  using assms(3,4) by induction (blast intro: life_inv_step [OF assms(1,2)])+


text \<open>A vault in a file that was flushed: allocate a block, lose the power, reopen the vault.\<close>

definition demo_flushed :: world where
  "demo_flushed = demo_vault\<lparr>inodes := (\<lambda>i. (inodes demo_vault i)\<lparr>durable := content (inodes demo_vault i)\<rparr>)\<rparr>"

lemma demo_flushed_ready:
  "vol_open demo_volume demo_flushed" "on_disk demo_env demo_volume (file_of (vv_file demo_volume) demo_flushed)"
  "durable_of (vv_file demo_volume) demo_flushed = file_of (vv_file demo_volume) demo_flushed"
  using demo_vault_open demo_vault_on_disk
  by (simp_all add: vol_open_def linked_def file_of_def durable_of_def demo_flushed_def)

lemma crash_to_crash: "crash_to w (crash w)"
  by (simp add: crash_to_def crash_def torn_def)

lemma demo_life:
  obtains b v w where "(vault_life demo_env)\<^sup>*\<^sup>* ({}, demo_volume, demo_flushed) ({b}, v, w)"
proof -
  have "9 \<in> vol_free demo_volume" by (simp add: vol_free_def demo_volume_def bit_free_bit)
  then have "vol_free demo_volume \<noteq> {}" by blast
  then obtain b v w where a: "allocate_block demo_env demo_volume demo_flushed = (Inr b, v, w)" "vol_open v w"
    "on_disk demo_env v (file_of (vv_file v) w)" "durable_of (vv_file v) w = file_of (vv_file v) w"
    by (rule allocate_durable [OF demo_os_reliable demo_flushed_ready(1,2)]) blast
  obtain fd w' where o: "open_existing demo_env (vv_path v) (vv_master_key v) (crash w) = (Inr (v\<lparr>vv_file := fd, vv_bitmap_write_count := 0\<rparr>), w')"
    by (rule reopen_after_crash [OF demo_os_reliable a(2-4)])
  have "vault_life demo_env ({}, demo_volume, demo_flushed) ({b}, v, w)" by (rule life_alloc [OF a(1)])
  moreover have "vault_life demo_env ({b}, v, w) ({b}, v\<lparr>vv_file := fd, vv_bitmap_write_count := 0\<rparr>, w')"
    by (rule life_restart [OF crash_to_crash o])
  ultimately show ?thesis by (intro that rtranclp.rtrancl_into_rtrancl [OF r_into_rtranclp])
qed


end
