(* ===== verification/Vault_Faults.thy ===== *)
theory Vault_Faults
  imports Volume_Persist
begin

text \<open>
  Opening a vault when one operating-system call fails: a failing \<^verbatim>\<open>metadata\<close> makes \<^verbatim>\<open>open_or_create\<close> replace the vault, and a full disk
  during creation leaves a file that no later open accepts.
\<close>

subsection \<open>After the last fault\<close>

definition calm :: "nat \<Rightarrow> env \<Rightarrow> bool" where
  "calm n E \<longleftrightarrow> (\<forall>k \<ge> n. os_fault E k = None)"

definition steady :: "env \<Rightarrow> env" where
  "steady E = E\<lparr>os_fault := (\<lambda>_. None)\<rparr>"

lemma steady_simps [simp]:
  "os_reliable (steady E)" "hash_sizes (steady E) = hash_sizes E" "sha256 (steady E) = sha256 E" "hash_master_key (steady E) = hash_master_key E"
  "os_now (steady E) = os_now E" "put_bytes (steady E) = put_bytes E"
  by (simp_all add: steady_def os_reliable_def hash_sizes_def hash_master_key_def os_now_def put_bytes_def fun_eq_iff)

text \<open>From call number \<open>n\<close> on the two computations are the same.\<close>

definition agrees :: "nat \<Rightarrow> ('a, 'w) io \<Rightarrow> ('a, 'w) io \<Rightarrow> bool" where
  "agrees n m m' \<longleftrightarrow> (\<forall>w. n \<le> os_calls w \<longrightarrow> m w = m' w \<and> n \<le> os_calls (snd (m w)))"

lemma agreesD: "agrees n m m' \<Longrightarrow> n \<le> os_calls w \<Longrightarrow> m w = m' w"
  by (simp add: agrees_def)

named_theorems agrees_intros

lemma agrees_basic [agrees_intros]: "agrees n (io_return x) (io_return x)" "agrees n (io_fail e) (io_fail e)"
  by (simp_all add: agrees_def io_return_def io_fail_def)

lemma agrees_bind [agrees_intros]:
  "agrees n m m' \<Longrightarrow> (\<And>x. agrees n (f x) (f' x)) \<Longrightarrow> agrees n (io_bind m f) (io_bind m' f')"
  unfolding agrees_def io_bind_def by (auto split: prod.splits sum.splits) (metis snd_conv)+

lemma agrees_branch [agrees_intros]:
  "(P \<Longrightarrow> agrees n m m') \<Longrightarrow> (\<not> P \<Longrightarrow> agrees n k k') \<Longrightarrow> agrees n (if P then m else k) (if P then m' else k')"
  "agrees n m m' \<Longrightarrow> (\<And>x. agrees n (f x) (f' x)) \<Longrightarrow> agrees n (case z of None \<Rightarrow> m | Some x \<Rightarrow> f x) (case z of None \<Rightarrow> m' | Some x \<Rightarrow> f' x)"
  by (auto split: option.split)

lemma calm_now: "calm n E \<Longrightarrow> n \<le> os_calls w \<Longrightarrow> os_fault E (os_calls w) = None"
  by (simp add: calm_def)

lemma agrees_call:
  assumes "calm n E" and "\<And>w. f w = f' w \<and> os_calls w \<le> os_calls (snd (f w))"
  shows "agrees n (os_call E f) (os_call (steady E) f')"
  unfolding agrees_def
proof (intro allI impI)
  fix w :: "'a world_scheme" assume n: "n \<le> os_calls w"
  have "os_calls w \<le> os_calls (os_tick w)" by (simp add: os_tick_def)
  with n assms(2) [of "os_tick w"] show "os_call E f w = os_call (steady E) f' w \<and> n \<le> os_calls (snd (os_call E f w))"
    by (auto simp: os_call_def calm_now [OF assms(1) n] steady_def)
qed

lemma agrees_files [agrees_intros]:
  assumes "calm n E"
  shows "agrees n (open_create_new E path) (open_create_new (steady E) path)" "agrees n (open_rw E path) (open_rw (steady E) path)"
    "agrees n (fs_len E path) (fs_len (steady E) path)" "agrees n (seek_start E fd off) (seek_start (steady E) fd off)"
    "agrees n (read_exact E fd k) (read_exact (steady E) fd k)" "agrees n (set_len E fd k) (set_len (steady E) fd k)"
    "agrees n (sync_all E fd) (sync_all (steady E) fd)" "agrees n (remove_file E path) (remove_file (steady E) path)"
  unfolding open_create_new_def open_rw_def fs_len_def seek_start_def read_exact_def set_len_def sync_all_def remove_file_def
  by (rule agrees_call [OF assms]; auto simp: io_bind_def lookup_path_def new_fd_def Let_def set_pos_def upd_inode_def split: option.split)+

lemma agrees_write [agrees_intros]: "calm n E \<Longrightarrow> agrees n (write_all E fd bs) (write_all (steady E) fd bs)"
  by (auto simp: agrees_def write_all_def calm_now put_bytes_def os_tick_def Let_def set_pos_def upd_inode_def steady_def os_now_def)

lemma agrees_create [agrees_intros]: "calm n E \<Longrightarrow> agrees n (create_new E path key k) (create_new (steady E) path key k)"
  unfolding create_new_def Let_def by (simp only: steady_simps) (intro agrees_intros)

lemma agrees_open [agrees_intros]: "calm n E \<Longrightarrow> agrees n (open_existing E path key) (open_existing (steady E) path key)"
  unfolding open_existing_def Let_def by (simp only: steady_simps) (intro agrees_intros)

subsection \<open>A vault is replaced\<close>

text \<open>C21: A failing \<^verbatim>\<open>metadata\<close> call replaces the vault.  When a file exists at the path, whatever it holds and whoever has its key, and
  only the first \<^verbatim>\<open>metadata\<close> call of \<^verbatim>\<open>open_or_create\<close> fails, with any error, the call succeeds with any key: the path then leads to
  a new container of this key in which every block is free.\<close>

theorem stat_failure_replaces_vault:
  assumes "os_fault E (os_calls w) = Some f" and "calm (Suc (os_calls w)) E" and "hash_sizes E"
    and "0 \<notin> set path" and "paths w path = Some i" and "n \<le> MAX_DATA_BLOCKS"
  shows "\<exists>fd w'. open_or_create E path key n w = (Inr (created fd path key n), w') \<and>
    vol_open (created fd path key n) w' \<and> on_disk E (created fd path key n) (file_of fd w') \<and>
    vol_free (created fd path key n) = (\<lambda>i. 9 + of_nat i) ` {..<unat n}"
proof -
  obtain e k where f: "f = (e, k)" by force
  let ?n = "Suc (os_calls w)"
  let ?w = "(os_tick (os_tick (os_tick (os_tick w))))\<lparr>paths := (paths w)(path := None)\<rparr>"
  have ok: "os_fault E (Suc (os_calls w)) = None" "os_fault E (Suc (Suc (os_calls w))) = None" "os_fault E (Suc (Suc (Suc (os_calls w)))) = None"
    using assms(2) by (simp_all add: calm_def)
  have n: "\<not> n > MAX_DATA_BLOCKS" using assms(6) by (simp only: not_less)
  have go: "open_or_create E path key n w = create_new E path key n ?w"
    using assms(1,4,5) ok n by (simp add: open_or_create_def path_exists_def fs_len_def remove_file_def os_call_def io_bind_def
      lookup_path_def os_tick_def f del: layout_values)
  have "?n \<le> os_calls ?w" by (simp add: os_tick_def)
  then have same: "create_new E path key n ?w = create_new (steady E) path key n ?w" by (rule agreesD [OF agrees_create [OF assms(2)]])
  have "os_reliable (steady E)" "hash_sizes (steady E)" "paths ?w path = None" using assms(3) by simp_all
  note calm = this
  obtain fd w' where c: "create_new (steady E) path key n ?w = (Inr (created fd path key n), w')"
    "vol_open (created fd path key n) w'" "on_disk (steady E) (created fd path key n) (file_of fd w')"
    by (rule create_new_ok [OF calm(1,2) assms(4) calm(3) assms(6)])
  moreover have "on_disk E (created fd path key n) (file_of fd w')" using c(3) by (simp add: on_disk_def)
  moreover note created_free [OF assms(6)]
  ultimately show ?thesis using go same by auto
qed

definition demo_blip :: env where
  "demo_blip = demo_env\<lparr>os_fault := (\<lambda>n. if n = 0 then Some (OtherError, 0) else None)\<rparr>"

theorem stat_failure_replaces_vault_witness:
  "\<exists>fd w. open_or_create demo_blip [] (replicate 32 7) 2 demo_vault = (Inr (created fd [] (replicate 32 7) 2), w) \<and>
     vol_free (created fd [] (replicate 32 7) 2) = {9, 10}"
proof -
  have w: "os_calls demo_vault = 0" by (simp add: demo_vault_def demo_disk_def demo_world_def)
  obtain i where i: "paths demo_vault [] = Some i" using demo_vault_open by (auto simp: vol_open_def linked_def demo_volume_def)
  have E: "os_fault demo_blip (os_calls demo_vault) = Some (OtherError, 0)" "calm (Suc (os_calls demo_vault)) demo_blip" "hash_sizes demo_blip"
    using demo_hash_sizes by (simp_all add: demo_blip_def calm_def w hash_sizes_def)
  have "(\<lambda>i. 9 + of_nat i :: u64) ` {..<unat (2 :: u64)} = {9, 10}" by (simp add: lessThan_nat_numeral lessThan_Suc insert_commute)
  with stat_failure_replaces_vault [OF E _ i, of 2 "replicate 32 7"] show ?thesis by (simp only:) fastforce
qed

subsection \<open>A vault that cannot be created\<close>

text \<open>A file without the magic number is refused with every key, and stays.\<close>

lemma blank_refused:
  assumes "calm (os_calls w) E" and "0 \<notin> set path" and "paths w path = Some i" and "content (inodes w i) = zeros (4096 + k)"
    and "m \<le> MAX_DATA_BLOCKS"
  shows "\<exists>w'. open_or_create E path key m w = (Inl InvalidData, w') \<and> paths w' = paths w \<and> content (inodes w' i) = zeros (4096 + k) \<and>
    os_calls w \<le> os_calls w'"
proof -
  have ok: "os_fault E (os_calls w) = None" "os_fault E (Suc (os_calls w)) = None" "os_fault E (Suc (Suc (os_calls w))) = None"
    "os_fault E (Suc (Suc (Suc (os_calls w)))) = None" "os_fault E (Suc (Suc (Suc (Suc (os_calls w))))) = None"
    using assms(1) by (simp_all add: calm_def)
  have m: "\<not> m > MAX_DATA_BLOCKS" using assms(5) by (simp only: not_less)
  have "zeros 4 = [0, 0, 0, 0]" by (simp add: numeral_eq_Suc)
  then have blank: "read_superblock (zeros 4096) = None"
    by (simp add: read_superblock_def SUPERBLOCK_MAGIC_def subslice_def u32_from_le_def)
  show ?thesis
    using ok m assms(2-4) by (simp add: open_or_create_def path_exists_def fs_len_def open_existing_def open_rw_def new_fd_def seek_start_def read_exact_def
      os_call_def io_bind_def lookup_path_def os_tick_def set_pos_def upd_inode_def Let_def blank io_fail_def BLOCK_SIZE_def subslice_def 
      del: layout_values)
qed

text \<open>A full disk: extending the new file succeeds, since it gets no blocks yet, and writing the superblock does not.  The call returns the
  error, and from then on every attempt to open the vault, with any key, reports that the file is not a vault.\<close>

lemma full_disk_blocks_vault:
  assumes "os_fault E (os_calls w + 6) = Some (e, 0)" and "\<forall>k. k \<noteq> os_calls w + 6 \<longrightarrow> os_fault E k = None"
    and "0 \<notin> set path" and "paths w path = None" and "n \<le> MAX_DATA_BLOCKS" and "m \<le> MAX_DATA_BLOCKS"
  shows "\<exists>w' w''. open_or_create E path key n w = (Inl e, w') \<and> open_or_create E path key' m w' = (Inl InvalidData, w'')"
proof -
  have ok: "os_fault E (os_calls w) = None" "os_fault E (Suc (os_calls w)) = None" "os_fault E (Suc (Suc (os_calls w))) = None"
    "os_fault E (Suc (Suc (Suc (os_calls w)))) = None" "os_fault E (Suc (Suc (Suc (Suc (os_calls w))))) = None"
    "os_fault E (Suc (Suc (Suc (Suc (Suc (os_calls w)))))) = None" "os_fault E (Suc (Suc (Suc (Suc (Suc (Suc (os_calls w))))))) = Some (e, 0)"
    using assms(1,2) by (simp_all add: numeral_eq_Suc)
  have n: "\<not> n > MAX_DATA_BLOCKS" using assms(5) by (simp only: not_less)
  have size: "unat ((DATA_START_BLOCK + n) * of_nat BLOCK_SIZE) = 4096 + (8 + unat n) * 4096"
    using assms(5) unat_created [OF assms(5)] by (simp add: unat_word_ariths BLOCK_SIZE_def word_le_nat_alt)
  let ?w = "snd (open_or_create E path key n w)"
  have "fst (open_or_create E path key n w) = Inl e \<and> paths ?w path = Some (next_ino w) \<and>
      content (inodes ?w (next_ino w)) = zeros (4096 + (8 + unat n) * 4096) \<and> os_calls ?w = os_calls w + 7"
    using ok n assms(3,4) by (simp add: open_or_create_def path_exists_def fs_len_def create_new_def open_create_new_def set_len_def new_fd_def
      seek_start_def write_all_def put_bytes_def os_call_def io_bind_def lookup_path_def os_tick_def set_pos_def upd_inode_def Let_def size
      del: layout_values)
  then have w: "fst (open_or_create E path key n w) = Inl e" "paths ?w path = Some (next_ino w)"
    "content (inodes ?w (next_ino w)) = zeros (4096 + (8 + unat n) * 4096)" "calm (os_calls ?w) E"
    using assms(2) by (auto simp: calm_def)
  from blank_refused [OF w(4) assms(3) w(2,3) assms(6)] w(1) show ?thesis by (metis prod.collapse)
qed

end
