(* ===== verification/Native_Heap.thy ===== *)
theory Native_Heap
  imports Ffi_Vault
begin

text \<open>
  The memory behind the pointers of the C interface, and the two heap functions of \<^verbatim>\<open>lib.rs\<close>.  Memory is a function from
  addresses to bytes; address 0 is null.  \<open>blocks\<close> lists the allocated blocks of the process with their sizes, those of the
  caller included; the global allocator places new ones (\<^const>\<open>sys_alloc\<close>).  A pointer argument is an address; that it
  points to a block of sufficient size is the caller's obligation, stated by the theorems that need it.  \<^verbatim>\<open>usize\<close> has 64
  bits, so a layout of a 32-bit size always exists.
\<close>

record native_globals = lib_globals +
  mem :: "nat \<Rightarrow> u8"
  blocks :: "(nat \<times> nat) list"

text \<open>\<^verbatim>\<open>slice::from_raw_parts(p, n)\<close> and \<^verbatim>\<open>ptr::copy_nonoverlapping\<close> to \<open>p\<close>; \<^verbatim>\<open>*p\<close> for a \<^verbatim>\<open>*mut u32\<close>, little-endian.\<close>

definition load :: "nat \<Rightarrow> nat \<Rightarrow> 'a native_globals_scheme \<Rightarrow> bytes" where
  "load p n s = map (mem s) [p..<p + n]"

definition poke :: "nat \<Rightarrow> bytes \<Rightarrow> (nat \<Rightarrow> u8) \<Rightarrow> nat \<Rightarrow> u8" where
  "poke p bs m a = (if p \<le> a \<and> a < p + length bs then bs ! (a - p) else m a)"

definition store :: "nat \<Rightarrow> bytes \<Rightarrow> 'a native_globals_scheme \<Rightarrow> 'a native_globals_scheme" where
  "store p bs s = s\<lparr>mem := poke p bs (mem s)\<rparr>"

definition load_u32 :: "nat \<Rightarrow> 'a native_globals_scheme \<Rightarrow> u32" where
  "load_u32 p s = u32_from_le (load p 4 s)"

definition store_u32 :: "nat \<Rightarrow> u32 \<Rightarrow> 'a native_globals_scheme \<Rightarrow> 'a native_globals_scheme" where
  "store_u32 p x = store p (u32_to_le x)"

subsection \<open>The heap functions\<close>

definition allocate_native_buffer :: "env \<Rightarrow> u32 \<Rightarrow> 'a native_globals_scheme \<Rightarrow> nat \<times> 'a native_globals_scheme" where
  "allocate_native_buffer E sz s =
     (if sz = 0 then (0, s)
      else
        let p = sys_alloc E (blocks s) (unat sz)
        in if p = 0 then (0, s) else (p, s\<lparr>blocks := (p, unat sz) # blocks s\<rparr>))"

definition release_native_buffer :: "nat \<Rightarrow> u32 \<Rightarrow> 'a native_globals_scheme \<Rightarrow> 'a native_globals_scheme" where
  "release_native_buffer ptr len s =
     (if ptr = 0 \<or> len = 0 then s
      else
        let s = store ptr (zeros (unat len)) s
        in s\<lparr>blocks := remove1 (ptr, unat len) (blocks s)\<rparr>)"

text \<open>What every function that returns a byte string does at its end: allocate, and copy unless the allocation failed.\<close>

definition hand_out :: "env \<Rightarrow> bytes \<Rightarrow> 'a native_globals_scheme \<Rightarrow> nat \<times> 'a native_globals_scheme" where
  "hand_out E bs s =
     (let (p, s) = allocate_native_buffer E (of_nat (length bs)) s
      in (p, if p \<noteq> 0 then store p bs s else s))"

subsection \<open>Memory\<close>

lemma length_load [simp, len_simps]: "length (load p n s) = n"
  by (simp add: load_def)

lemma nth_load [simp]: "i < n \<Longrightarrow> load p n s ! i = mem s (p + i)"
  by (simp add: load_def)

lemma load_cong: "(\<And>a. p \<le> a \<Longrightarrow> a < p + n \<Longrightarrow> mem s a = mem t a) \<Longrightarrow> load p n s = load p n t"
  by (rule nth_equalityI) simp_all

lemma store_frame [frame_simps, simp]:
  "blocks (store p bs s) = blocks s"
  "vfs (store p bs s) = vfs s"
  "root_curr (store p bs s) = root_curr s"
  "root_pend (store p bs s) = root_pend s"
  "epoch_id (store p bs s) = epoch_id s"
  "msg_counter (store p bs s) = msg_counter s"
  by (simp_all add: store_def)

lemma mem_store: "mem (store p bs s) = poke p bs (mem s)"
  by (simp add: store_def)

lemma load_store_same [simp]: "n = length bs \<Longrightarrow> load p n (store p bs s) = bs"
  by (rule nth_equalityI) (simp_all add: mem_store poke_def)

lemma load_store_apart: "apart (p, length bs) (q, n) \<Longrightarrow> load q n (store p bs s) = load q n s"
  by (rule load_cong) (auto simp: mem_store poke_def)

lemma load_poke_apart:
  "apart (p, length bs) (q, n) \<Longrightarrow> load q n (s\<lparr>mem := poke p bs (mem s), blocks := x\<rparr>) = load q n s"
  by (rule load_cong) (auto simp: poke_def)

lemma load_store_u32_apart: "apart (p, 4) (q, n) \<Longrightarrow> load q n (store_u32 p x s) = load q n s"
  by (simp add: store_u32_def load_store_apart)

lemma store_commute:
  assumes "apart (p, length a) (q, length b)"
  shows "store p a (store q b s) = store q b (store p a s)"
proof -
  have "poke p a (poke q b m) = poke q b (poke p a m)" for m
    using assms by (auto simp: poke_def fun_eq_iff)
  then show ?thesis by (simp add: store_def)
qed

lemma store_u32_commute:
  "apart (p, 4) (q, 4) \<Longrightarrow> store_u32 p x (store_u32 q y s) = store_u32 q y (store_u32 p x s)"
  unfolding store_u32_def by (rule store_commute) simp

lemma load_u32_store_u32 [simp]: "load_u32 p (store_u32 p x s) = x"
  by (simp add: load_u32_def store_u32_def)

lemma store_u32_frame [frame_simps, simp]:
  "blocks (store_u32 p x s) = blocks s"
  "root_curr (store_u32 p x s) = root_curr s"
  "root_pend (store_u32 p x s) = root_pend s"
  "epoch_id (store_u32 p x s) = epoch_id s"
  by (simp_all add: store_u32_def)

subsection \<open>Well-formed heaps\<close>

text \<open>The blocks in use share no byte, none is at null and none is empty.  \<open>owned\<close>: different live blocks.\<close>

definition heap_wf :: "'a native_globals_scheme \<Rightarrow> bool" where
  "heap_wf s \<longleftrightarrow> (\<forall>(p, n) \<in> set (blocks s). 0 < p \<and> 0 < n) \<and> sorted_wrt apart (blocks s)"

definition owned :: "(nat \<times> nat) list \<Rightarrow> 'a native_globals_scheme \<Rightarrow> bool" where
  "owned xs s \<longleftrightarrow> distinct xs \<and> set xs \<subseteq> set (blocks s)"

lemma apart_sym: "apart a b \<Longrightarrow> apart b a"
  by (cases a; cases b) auto

lemma heap_wf_apart:
  assumes "heap_wf s" and "a \<in> set (blocks s)" and "b \<in> set (blocks s)" and "a \<noteq> b"
  shows "apart a b"
proof -
  have "sorted_wrt apart xs \<Longrightarrow> a \<in> set xs \<Longrightarrow> b \<in> set xs \<Longrightarrow> apart a b" for xs
    using assms(4) by (induction xs) (auto intro: apart_sym)
  from this [of "blocks s"] assms show ?thesis by (simp add: heap_wf_def)
qed

lemma owned_apart: "heap_wf s \<Longrightarrow> owned xs s \<Longrightarrow> i < length xs \<Longrightarrow> j < length xs \<Longrightarrow> i \<noteq> j \<Longrightarrow> apart (xs ! i) (xs ! j)"
  by (rule heap_wf_apart) (auto simp: owned_def nth_eq_iff_index_eq)

lemma alloc_apart:
  "alloc_laws E \<Longrightarrow> 0 < n \<Longrightarrow> sys_alloc E bs n \<noteq> 0 \<Longrightarrow> b \<in> set bs \<Longrightarrow> apart (sys_alloc E bs n, n) b"
  unfolding alloc_laws_def by blast

lemma allocate_none: "sz = 0 \<or> sys_alloc E (blocks s) (unat sz) = 0 \<Longrightarrow> allocate_native_buffer E sz s = (0, s)"
  by (auto simp: allocate_native_buffer_def)

lemma allocate_some:
  "sz \<noteq> 0 \<Longrightarrow> sys_alloc E (blocks s) (unat sz) \<noteq> 0 \<Longrightarrow>
     allocate_native_buffer E sz s =
       (sys_alloc E (blocks s) (unat sz), s\<lparr>blocks := (sys_alloc E (blocks s) (unat sz), unat sz) # blocks s\<rparr>)"
  by (simp add: allocate_native_buffer_def Let_def)

lemma allocate_heap_wf:
  assumes "alloc_laws E" and "heap_wf s"
  shows "heap_wf (snd (allocate_native_buffer E sz s))"
proof (cases "sz = 0 \<or> sys_alloc E (blocks s) (unat sz) = 0")
  case True
  with assms(2) show ?thesis by (simp add: allocate_none)
next
  case False
  moreover from this have "0 < unat sz" by (simp add: unat_gt_0)
  ultimately have "\<forall>b \<in> set (blocks s). apart (sys_alloc E (blocks s) (unat sz), unat sz) b"
    using alloc_apart [OF assms(1)] by blast
  with False \<open>0 < unat sz\<close> assms(2) show ?thesis by (simp add: heap_wf_def allocate_some)
qed

lemma heap_wf_store [simp]: "heap_wf (store p bs s) \<longleftrightarrow> heap_wf s"
  by (simp add: heap_wf_def)

lemma heap_wf_cong: "blocks s = blocks t \<Longrightarrow> heap_wf s \<longleftrightarrow> heap_wf t"
  by (simp add: heap_wf_def)

lemma sorted_wrt_remove1: "sorted_wrt P xs \<Longrightarrow> sorted_wrt P (remove1 b xs)"
proof (induction xs)
  case (Cons x xs)
  have "set (remove1 b xs) \<subseteq> set xs" by (rule set_remove1_subset)
  with Cons show ?case by auto
qed simp

lemma release_heap_wf: "heap_wf s \<Longrightarrow> heap_wf (release_native_buffer p n s)"
  using set_remove1_subset [of "(p, unat n)" "blocks s"]
  by (auto simp: heap_wf_def release_native_buffer_def Let_def sorted_wrt_remove1)

text \<open>A successful allocation is a fresh block; releasing it restores the list of blocks and leaves zeros.\<close>

lemma release_block:
  assumes "p \<noteq> 0" and "n \<noteq> 0" and "blocks t = (p, unat n) # bs"
  shows "blocks (release_native_buffer p n t) = bs"
    and "load p (unat n) (release_native_buffer p n t) = zeros (unat n)"
proof -
  have r: "release_native_buffer p n t = (store p (zeros (unat n)) t)\<lparr>blocks := bs\<rparr>"
    using assms by (simp add: release_native_buffer_def)
  then show "blocks (release_native_buffer p n t) = bs" by simp
  have "load p (unat n) (release_native_buffer p n t) = load p (unat n) (store p (zeros (unat n)) t)"
    unfolding r by (rule load_cong) simp
  then show "load p (unat n) (release_native_buffer p n t) = zeros (unat n)" by simp
qed

lemma release_load_apart:
  "apart (p, unat n) (q, m) \<Longrightarrow> load q m (release_native_buffer p n s) = load q m s"
  by (rule load_cong) (auto simp: release_native_buffer_def Let_def mem_store poke_def)

end
