(* ===== verification/Ffi_Blocks.thy ===== *)
theory Ffi_Blocks
  imports Vault_Restart Native_Heap
begin

text \<open>
  The vault exports that take pointers, on native memory: what \<^verbatim>\<open>Ffi_Vault\<close> states over buffers, with the null and length tests and
  the copies of the C interface.  A raw slice is exclusive while the call runs, so an output slice is loaded, filled and stored back.
\<close>

definition ffi_init_virtual_volume ::
  "env \<Rightarrow> nat \<Rightarrow> u32 \<Rightarrow> nat \<Rightarrow> u32 \<Rightarrow> u64 \<Rightarrow> 'a native_globals_scheme \<Rightarrow> u32 \<times> 'a native_globals_scheme" where
  "ffi_init_virtual_volume E path_ptr path_len key_ptr key_len total_n s =
     (if path_ptr = 0 \<or> key_ptr = 0 \<or> path_len = 0 \<or> key_len < 32 then (1, s)
      else
        let path = load path_ptr (unat path_len) s
        in if \<not> utf8_valid path then (2, s)
           else
             let mk = load key_ptr 32 s
             in case open_or_create E path mk total_n s of
                  (Inl _, s) \<Rightarrow> (3, s)
                | (Inr vault, s) \<Rightarrow>
                    (case vfs s of
                       None \<Rightarrow> (0, s\<lparr>vfs := Some vault\<rparr>)
                     | Some _ \<Rightarrow> (0, snd (volume_drop E vault s))))"

definition ffi_read_vault_blocks ::
  "env \<Rightarrow> u64 \<Rightarrow> u32 \<Rightarrow> nat \<Rightarrow> 'a native_globals_scheme \<Rightarrow> u32 \<times> 'a native_globals_scheme" where
  "ffi_read_vault_blocks E start n out s =
     (if out = 0 \<or> n = 0 then (0, s)
      else
        case vfs s of
          None \<Rightarrow> (0, s)
        | Some v \<Rightarrow>
            let buf = load out (unat n * PAYLOAD_SIZE) s;
                (c, buf, s) = read_blocks_loop E v start 0 (unat n) buf 0 s
            in (c, store out buf s))"

definition ffi_write_vault_blocks ::
  "env \<Rightarrow> u64 \<Rightarrow> u32 \<Rightarrow> nat \<Rightarrow> 'a native_globals_scheme \<Rightarrow> u32 \<times> 'a native_globals_scheme" where
  "ffi_write_vault_blocks E start n data s =
     (if data = 0 \<or> n = 0 then (0, s)
      else
        case vfs s of
          None \<Rightarrow> (0, s)
        | Some v \<Rightarrow> write_blocks_loop E v start 0 (unat n) (load data (unat n * PAYLOAD_SIZE) s) 0 s)"

definition ffi_load_id_stamp :: "env \<Rightarrow> nat \<Rightarrow> u32 \<Rightarrow> 'a native_globals_scheme \<Rightarrow> u32 \<times> 'a native_globals_scheme" where
  "ffi_load_id_stamp E out out_cap s =
     (if out = 0 \<or> out_cap < 32 then (1, s)
      else case read_id_stamp E s of (Some st, s) \<Rightarrow> (0, store out st s) | (None, s) \<Rightarrow> (1, s))"

subsection \<open>Buffers and pointers\<close>

definition slice_at :: "nat \<Rightarrow> nat \<Rightarrow> 'a native_globals_scheme \<Rightarrow> bytes option" where
  "slice_at p n s = (if p = 0 then None else Some (load p n s))"

lemma take_load: "n \<le> m \<Longrightarrow> take n (load p m s) = load p n s"
  by (rule nth_equalityI) simp_all

lemma ffi_init_eq:
  "ffi_init_virtual_volume E pp pl kp kl n s = init_virtual_volume E (slice_at pp (unat pl) s) (slice_at kp (unat kl) s) n s"
  by (auto simp: ffi_init_virtual_volume_def init_virtual_volume_def slice_at_def take_load word_less_nat_alt unat_eq_0
      Let_def split: option.split)

lemma ffi_write_eq: "ffi_write_vault_blocks E b n p s = write_vault_blocks E b n (slice_at p (unat n * PAYLOAD_SIZE) s) s"
  by (simp add: ffi_write_vault_blocks_def write_vault_blocks_def slice_at_def)

lemma ffi_read_eq:
  "p \<noteq> 0 \<Longrightarrow> read_vault_blocks E b n (slice_at p (unat n * PAYLOAD_SIZE) s) s = (c, Some d, s') \<Longrightarrow> n \<noteq> 0 \<Longrightarrow> vfs s \<noteq> None \<Longrightarrow>
     ffi_read_vault_blocks E b n p s = (c, store p d s')"
  by (auto simp: ffi_read_vault_blocks_def read_vault_blocks_def slice_at_def Let_def split: option.splits prod.splits)

text \<open>The file operations leave native memory alone.\<close>

lemma same_native:
  assumes "world.more s = world.more (s' :: 'a native_globals_scheme)"
  shows "mem s = mem s'" "blocks s = blocks s'"
  using assms by (cases s; cases s'; simp)+

lemma keeps_native: "keeps_globals m \<Longrightarrow> m (s :: 'a native_globals_scheme) = (r, s') \<Longrightarrow> mem s' = mem s \<and> blocks s' = blocks s"
  using same_native [of s' s] unfolding keeps_globals_def by (metis snd_conv)

lemma write_loop_native:
  fixes s :: "'a native_globals_scheme"
  shows "write_blocks_loop E v b i m d c s = (r, s') \<Longrightarrow> mem s' = mem s \<and> blocks s' = blocks s"
proof (induction m arbitrary: i c s)
  case (Suc m)
  obtain x s1 where x: "write_block E v (b + of_nat i) (subslice (i * PAYLOAD_SIZE) ((i + 1) * PAYLOAD_SIZE) d) s = (x, s1)" by force
  from keeps_native [OF keeps_write_block x] Suc x show ?case by (auto split: sum.splits)
qed simp

lemma read_loop_native:
  fixes s :: "'a native_globals_scheme"
  shows "read_blocks_loop E v b i m d c s = (r, d', s') \<Longrightarrow> mem s' = mem s \<and> blocks s' = blocks s"
proof (induction m arbitrary: i c d s)
  case (Suc m)
  obtain x s1 where x: "read_block E v (b + of_nat i) s = (x, s1)" by force
  from keeps_native [OF keeps_blocks(1) x] Suc x show ?case by (auto split: sum.splits)
qed simp

lemma write_native:
  fixes s :: "'a native_globals_scheme"
  shows "write_vault_blocks E b n d s = (c, s') \<Longrightarrow> mem s' = mem s \<and> blocks s' = blocks s"
  by (auto simp: write_vault_blocks_def split: option.splits if_splits dest: write_loop_native)

lemma read_native:
  fixes s :: "'a native_globals_scheme"
  shows "read_vault_blocks E b n d s = (c, d', s') \<Longrightarrow> mem s' = mem s \<and> blocks s' = blocks s"
  by (auto simp: read_vault_blocks_def split: option.splits if_splits prod.splits dest: read_loop_native)

lemma init_native:
  fixes s :: "'a native_globals_scheme"
  assumes "init_virtual_volume E p key n s = (rc, s')" and "vfs s = None"
  shows "mem s' = mem s"
proof -
  have "vfs s1 = None \<and> mem s1 = mem s" if "open_or_create E q k n s = (r, s1)" for q k r s1
    using keeps_native [OF keeps_open_or_create that] keeps_vfs [OF keeps_open_or_create that] assms(2) by simp
  with assms(1) show ?thesis by (auto simp: init_virtual_volume_def split: option.splits if_splits prod.splits sum.splits)
qed

lemma slice_at_some: "p \<noteq> 0 \<Longrightarrow> slice_at p n s = Some (load p n s)"
  by (simp add: slice_at_def)

subsection \<open>Round trips\<close>

text \<open>C27: A run of blocks written from native memory is read back into native memory: the call that writes stores all blocks and changes
  no memory; the call that reads returns the count, the output area holds the bytes written, whether or not it overlaps the input, and
  no byte outside it and no allocation has changed.\<close>

theorem vault_blocks_roundtrip:
  fixes s :: "'a native_globals_scheme"
  assumes "vault_env E" and "vault_at v s" and "block_run v start (unat n)" and "n \<noteq> 0" and "data \<noteq> 0" and "out \<noteq> 0"
  shows "\<exists>s' s''. ffi_write_vault_blocks E start n data s = (n, s') \<and> mem s' = mem s \<and>
    ffi_read_vault_blocks E start n out s' = (n, s'') \<and>
    load out (unat n * PAYLOAD_SIZE) s'' = load data (unat n * PAYLOAD_SIZE) s \<and>
    (\<forall>a. a < out \<or> out + unat n * PAYLOAD_SIZE \<le> a \<longrightarrow> mem s'' a = mem s a) \<and> blocks s'' = blocks s"
proof -
  let ?len = "unat n * PAYLOAD_SIZE"
  obtain s' s1 where w: "write_vault_blocks E start n (Some (load data ?len s)) s = (n, s')"
    and r: "read_vault_blocks E start n (Some (load out ?len s')) s' = (n, Some (load data ?len s), s1)"
    and vfs: "vfs s' \<noteq> None"
    using vault_blocks_buffers [OF assms(1-4), of "load data ?len s"] by fastforce
  have m: "mem s' = mem s" "blocks s' = blocks s" "mem s1 = mem s" "blocks s1 = blocks s"
    using write_native [OF w] read_native [OF r] by simp_all
  have "ffi_write_vault_blocks E start n data s = (n, s')" using w assms(5) by (simp add: ffi_write_eq slice_at_some)
  moreover have "ffi_read_vault_blocks E start n out s' = (n, store out (load data ?len s) s1)"
    using ffi_read_eq [OF assms(6), of E start n s'] r assms(4,6) vfs by (simp add: slice_at_some)
  ultimately show ?thesis using m by (auto simp: mem_store poke_def)
qed

text \<open>C31: The identity stamp is found again: on an open vault that reaches block 994, generating the stamp succeeds, and loading it puts
  the hash of the current root key and the stored public key into the 32 bytes at the caller's pointer and changes no other memory.\<close>

theorem id_stamp_roundtrip:
  fixes s :: "'a native_globals_scheme"
  assumes "vault_env E" and "vault_at v s" and "994 < vv_total_blocks v" and "out \<noteq> 0" and "32 \<le> cap"
  shows "\<exists>s' s''. generate_and_persist_id_stamp E s = (0, s') \<and> ffi_load_id_stamp E out cap s' = (0, s'') \<and>
    load out 32 s'' = compute_id_stamp E (root_curr s) (bob_pk_store s) \<and>
    (\<forall>a. a < out \<or> out + 32 \<le> a \<longrightarrow> mem s'' a = mem s a)"
proof -
  let ?st = "compute_id_stamp E (root_curr s) (bob_pk_store s)"
  have st: "length ?st = 32" using assms(1) by (simp add: compute_id_stamp_def vault_env_def hash_sizes_def)
  obtain s' s1 where g: "generate_and_persist_id_stamp E s = (0, s')" and r: "read_id_stamp E s' = (Some ?st, s1)"
    using id_stamp_buffers [OF assms(1-3), of "zeros 32"] by auto
  have "mem s' = mem s" using g
    by (auto simp: generate_and_persist_id_stamp_def persist_id_stamp_def vault_write_block_def Let_def
        split: option.splits prod.splits sum.splits dest!: keeps_native [OF keeps_write_block])
  moreover have "mem s1 = mem s'" using r
    by (auto simp: read_id_stamp_def vault_read_block_def Let_def split: option.splits prod.splits sum.splits if_splits
        dest!: keeps_native [OF keeps_blocks(1)])
  moreover have "ffi_load_id_stamp E out cap s' = (0, store out ?st s1)" using r assms(4,5) by (simp add: ffi_load_id_stamp_def not_less)
  ultimately show ?thesis using g st by (auto simp: mem_store poke_def)
qed

lemma init_at:
  assumes "pp \<noteq> 0" and "kp \<noteq> 0" and "32 \<le> unat kl"
  shows "ffi_init_virtual_volume E pp pl kp kl n s = init_virtual_volume E (Some (load pp (unat pl) s)) (Some (load kp (unat kl) s)) n s"
  using assms by (simp add: ffi_init_eq slice_at_some)

lemma second_process:
  fixes t :: "'a native_globals_scheme"
  assumes "reopens E path key m b k d t"
    and "load pp (unat pl) t = path" and "load kp 32 t = key" and "32 \<le> unat kl" and "pp \<noteq> 0" and "kp \<noteq> 0" and "out \<noteq> 0" and "k \<noteq> 0"
    and "length d = unat k * PAYLOAD_SIZE"
  shows "\<exists>t1 t2. ffi_init_virtual_volume E pp pl kp kl m t = (0, t1) \<and> ffi_read_vault_blocks E b k out t1 = (k, t2) \<and>
    load out (unat k * PAYLOAD_SIZE) t2 = d"
proof -
  obtain t1 where t1: "init_virtual_volume E (Some path) (Some (load kp (unat kl) t)) m t = (0, t1)" "vfs t1 \<noteq> None"
    "\<forall>buf. length buf = unat k * PAYLOAD_SIZE \<longrightarrow> (\<exists>t2. read_vault_blocks E b k (Some buf) t1 = (k, Some d, t2))"
    using assms(1) [unfolded reopens_def, THEN conjunct1, rule_format, of "load kp (unat kl) t"] assms(3,4,9) by (auto simp: take_load)
  obtain t2 where "read_vault_blocks E b k (Some (load out (unat k * PAYLOAD_SIZE) t1)) t1 = (k, Some d, t2)"
    using t1(3) [rule_format, of "load out (unat k * PAYLOAD_SIZE) t1"] by auto
  then have "ffi_read_vault_blocks E b k out t1 = (k, store out d t2)"
    using ffi_read_eq [OF assms(7), of E b k t1] assms(7,8) t1(2) by (simp add: slice_at_some)
  with t1(1) init_at [OF assms(5,6,4), of E pl m t] assms(2,9) show ?thesis by auto
qed

text \<open>C13: What one process stores, the next one reads.  A process initialises a vault, with path and key in its memory, where no file
  exists and writes a run of data blocks from its memory; a later process that finds the same files and initialises the vault with the
  same path and key, whatever block count it asks for, reads the run back into its memory.  With a key of another hash the
  initialisation reports error 3.\<close>

theorem vault_survives_restart:
  fixes s :: "'a native_globals_scheme"
  assumes "vault_env E" and "utf8_valid (load pp (unat pl) s)" and "0 \<notin> set (load pp (unat pl) s)"
    and "paths s (load pp (unat pl) s) = None" and "vfs s = None" and "pp \<noteq> 0" and "pl \<noteq> 0" and "kp \<noteq> 0" and "32 \<le> kl"
    and "n \<le> MAX_DATA_BLOCKS" and "m \<le> MAX_DATA_BLOCKS" and "k \<noteq> 0" and "9 \<le> b" and "unat b + unat k \<le> 9 + unat n"
    and "data \<noteq> 0" and "pp' \<noteq> 0" and "kp' \<noteq> 0" and "out \<noteq> 0"
  shows "\<exists>s1 s2. ffi_init_virtual_volume E pp pl kp kl n s = (0, s1) \<and> ffi_write_vault_blocks E b k data s1 = (k, s2) \<and>
    (\<forall>t :: 'a native_globals_scheme. paths t = paths s2 \<and> inodes t = inodes s2 \<and> vfs t = None \<and>
         load pp' (unat pl) t = load pp (unat pl) s \<longrightarrow>
       (load kp' 32 t = load kp 32 s \<longrightarrow>
          (\<exists>t1 t2. ffi_init_virtual_volume E pp' pl kp' kl m t = (0, t1) \<and> ffi_read_vault_blocks E b k out t1 = (k, t2) \<and>
             load out (unat k * PAYLOAD_SIZE) t2 = load data (unat k * PAYLOAD_SIZE) s)) \<and>
       (sha256 E (load kp' 32 t) \<noteq> sha256 E (load kp 32 s) \<longrightarrow> fst (ffi_init_virtual_volume E pp' pl kp' kl m t) = 3))"
proof -
  let ?path = "load pp (unat pl) s" and ?key = "load kp (unat kl) s" and ?len = "unat k * PAYLOAD_SIZE"
  have ne: "?path \<noteq> []" using assms(7) by (simp add: load_def unat_eq_0)
  have kl: "32 \<le> unat kl" using assms(9) by (simp add: word_le_nat_alt)
  have key: "32 \<le> length ?key" "take 32 ?key = load kp 32 s" using kl by (simp_all add: take_load)
  obtain s1 s2 where s1: "init_virtual_volume E (Some ?path) (Some ?key) n s = (0, s1)"
    and w: "write_vault_blocks E b k (Some (load data ?len s)) s1 = (k, s2)"
    and nxt: "\<forall>t :: 'a native_globals_scheme. paths t = paths s2 \<and> inodes t = inodes s2 \<and> vfs t = None \<longrightarrow>
      reopens E ?path (take 32 ?key) m b k (load data ?len s) t"
    by (rule restart_buffers [OF assms(1) ne assms(2-5,10,11) key(1) assms(12-14), of "load data ?len s"]) simp
  have "(load kp' 32 t = load kp 32 s \<longrightarrow>
          (\<exists>t1 t2. ffi_init_virtual_volume E pp' pl kp' kl m t = (0, t1) \<and> ffi_read_vault_blocks E b k out t1 = (k, t2) \<and>
             load out ?len t2 = load data ?len s)) \<and>
       (sha256 E (load kp' 32 t) \<noteq> sha256 E (load kp 32 s) \<longrightarrow> fst (ffi_init_virtual_volume E pp' pl kp' kl m t) = 3)"
    if t: "paths t = paths s2 \<and> inodes t = inodes s2 \<and> vfs t = None \<and> load pp' (unat pl) t = ?path" for t :: "'a native_globals_scheme"
  proof (intro conjI impI)
    show "fst (ffi_init_virtual_volume E pp' pl kp' kl m t) = 3" if "sha256 E (load kp' 32 t) \<noteq> sha256 E (load kp 32 s)"
      using nxt t kl that key(2) init_at [OF assms(16,17) kl, of E pl m t] by (simp add: reopens_def take_load)
    show "\<exists>t1 t2. ffi_init_virtual_volume E pp' pl kp' kl m t = (0, t1) \<and> ffi_read_vault_blocks E b k out t1 = (k, t2) \<and>
        load out ?len t2 = load data ?len s" if "load kp' 32 t = load kp 32 s"
      by (rule second_process [OF nxt [rule_format]]) (use t kl that key(2) assms(12,16-18) in simp_all)
  qed
  moreover have "ffi_init_virtual_volume E pp pl kp kl n s = (0, s1)" using s1 assms(6,8) by (simp add: ffi_init_eq slice_at_some)
  moreover have "load data ?len s1 = load data ?len s" using init_native [OF s1 assms(5)] by (simp add: load_def)
  then have "ffi_write_vault_blocks E b k data s1 = (k, s2)" using w assms(15) by (simp add: ffi_write_eq slice_at_some)
  ultimately show ?thesis by blast
qed

subsection \<open>A process with memory\<close>

definition demo_host :: native_globals where
  "demo_host = lib_globals.extend demo_lib (native_globals.fields (\<lambda>a. if a = 0 then 0 else 65) [(100, 40), (1000, 8136), (20000, 8136)])"

lemmas demo_host_defs = demo_host_def lib_globals.extend_def native_globals.fields_def

lemma demo_host_vault: "vault_at demo_big demo_host"
  using demo_vault_at by (simp add: demo_host_defs vault_at_def vol_open_def linked_def file_of_def)

theorem vault_blocks_roundtrip_witness:
  "\<exists>s' s''. ffi_write_vault_blocks demo_env 20 2 1000 demo_host = (2, s') \<and> ffi_read_vault_blocks demo_env 20 2 20000 s' = (2, s'') \<and>
     load 20000 8136 s'' = load 1000 8136 demo_host"
proof -
  have "block_run demo_big 20 (unat (2 :: u32))" by (simp add: block_run_def demo_big_def)
  from vault_blocks_roundtrip [OF demo_vault_env demo_host_vault this, of 1000 20000] show ?thesis
    by (auto simp: PAYLOAD_SIZE_def BLOCK_SIZE_def)
qed

theorem id_stamp_roundtrip_witness:
  "\<exists>s' s''. generate_and_persist_id_stamp demo_env demo_host = (0, s') \<and> ffi_load_id_stamp demo_env 100 40 s' = (0, s'')"
proof -
  have "994 < vv_total_blocks demo_big" by (simp add: demo_big_def)
  from id_stamp_roundtrip [OF demo_vault_env demo_host_vault this, of 100 40] show ?thesis by auto
qed

theorem vault_survives_restart_witness:
  "\<exists>s1 s2. ffi_init_virtual_volume demo_env 100 1 100 32 4 (demo_host\<lparr>vfs := None\<rparr>) = (0, s1) \<and>
     ffi_write_vault_blocks demo_env 10 2 1000 s1 = (2, s2)"
proof -
  have p: "load 100 (unat (1 :: u32)) (demo_host\<lparr>vfs := None\<rparr>) = [65]" by (simp add: load_def demo_host_defs)
  have "paths (demo_host\<lparr>vfs := None\<rparr>) [65] = None" by (simp add: demo_host_defs demo_lib_def)
  then show ?thesis
    using vault_survives_restart [of demo_env 100 1 "demo_host\<lparr>vfs := None\<rparr>" 100 32 4 4 2 10 1000 100 100 20000, unfolded p]
      demo_vault_env by auto
qed

end
