(* ===== verification/Ffi_Message.thy ===== *)
theory Ffi_Message
  imports Native_Heap Message_Cipher Tail_Padding
begin

text \<open>
  The exported message and padding functions of \<^verbatim>\<open>lib.rs\<close> over the native memory.  A pointer is an address and its data are
  read when the function runs; a result is a block on the native heap, its length is written behind \<open>out_len\<close>.  The
  functions that return such a block share the contract of the locale \<open>buffer_export\<close>, proved once and interpreted for each.
\<close>

subsection \<open>Message functions\<close>

definition msg_counter_next :: "'a native_globals_scheme \<Rightarrow> u64 \<times> 'a native_globals_scheme" where
  "msg_counter_next s = next_msg_seq s"

definition msg_counter_current :: "'a native_globals_scheme \<Rightarrow> u64" where
  "msg_counter_current s = current_msg_seq s"

definition get_epoch_id :: "'a native_globals_scheme \<Rightarrow> u32" where
  "get_epoch_id s = read_epoch_id s"

definition ffi_derive_message_key ::
  "env \<Rightarrow> u32 \<Rightarrow> u64 \<Rightarrow> 'a native_globals_scheme \<Rightarrow> (nat \<times> 'a native_globals_scheme) outcome" where
  "ffi_derive_message_key E epoch msg_seq s =
     (case derive_message_key E epoch msg_seq s of
        Panic \<Rightarrow> Panic
      | Done key \<Rightarrow>
          Done (let (p, s) = allocate_native_buffer E 32 s
                in (p, if p \<noteq> 0 then store p key s else s)))"

definition encrypt_message ::
  "env \<Rightarrow> nat \<Rightarrow> u32 \<Rightarrow> nat \<Rightarrow> nat \<Rightarrow> u32 \<Rightarrow> u32 \<Rightarrow> u64 \<Rightarrow> u64 \<Rightarrow> nat \<Rightarrow>
     'a native_globals_scheme \<Rightarrow> nat \<times> 'a native_globals_scheme" where
  "encrypt_message E pt pt_len key stamp outgoing epoch msg_seq timestamp out_len s =
     (if pt = 0 \<or> key = 0 \<or> stamp = 0 \<or> out_len = 0 \<or> pt_len = 0
      then (0, if out_len \<noteq> 0 then store_u32 out_len 0 s else s)
      else
        let plain = load pt (unat pt_len) s;
            k = load key 32 s;
            st = load stamp 32 s
        in case encrypt E plain k st (outgoing \<noteq> 0) epoch msg_seq timestamp of
             Some ct \<Rightarrow> hand_out E ct (store_u32 out_len (of_nat (length ct)) s)
           | None \<Rightarrow> (0, store_u32 out_len 0 s))"

definition decrypt_message ::
  "env \<Rightarrow> nat \<Rightarrow> u32 \<Rightarrow> nat \<Rightarrow> nat \<Rightarrow> u32 \<Rightarrow> u32 \<Rightarrow> u64 \<Rightarrow> u64 \<Rightarrow> nat \<Rightarrow>
     'a native_globals_scheme \<Rightarrow> nat \<times> 'a native_globals_scheme" where
  "decrypt_message E ct ct_len key stamp outgoing epoch msg_seq timestamp out_len s =
     (if ct = 0 \<or> key = 0 \<or> stamp = 0 \<or> out_len = 0 \<or> ct_len = 0
      then (0, if out_len \<noteq> 0 then store_u32 out_len 0 s else s)
      else
        let wire = load ct (unat ct_len) s;
            k = load key 32 s;
            st = load stamp 32 s
        in case decrypt E wire k st (outgoing \<noteq> 0) epoch msg_seq timestamp of
             Some pt \<Rightarrow> hand_out E pt (store_u32 out_len (of_nat (length pt)) s)
           | None \<Rightarrow> (0, store_u32 out_len 0 s))"

text \<open>\<open>did_commit\<close> may be null: the flag is then not reported.\<close>

definition report_commit :: "nat \<Rightarrow> bool \<Rightarrow> 'a native_globals_scheme \<Rightarrow> 'a native_globals_scheme" where
  "report_commit did_commit committed s =
     (if did_commit \<noteq> 0 then store_u32 did_commit (if committed then 1 else 0) s else s)"

definition decrypt_with_auto_commit ::
  "env \<Rightarrow> nat \<Rightarrow> u32 \<Rightarrow> nat \<Rightarrow> u32 \<Rightarrow> u32 \<Rightarrow> u64 \<Rightarrow> u64 \<Rightarrow> nat \<Rightarrow> nat \<Rightarrow>
     'a native_globals_scheme \<Rightarrow> (nat \<times> 'a native_globals_scheme) outcome" where
  "decrypt_with_auto_commit E ct ct_len stamp outgoing epoch msg_seq timestamp out_len did_commit s =
     (if ct = 0 \<or> stamp = 0 \<or> out_len = 0 \<or> ct_len = 0
      then Done (0, report_commit did_commit False (if out_len \<noteq> 0 then store_u32 out_len 0 s else s))
      else
        let wire = load ct (unat ct_len) s;
            st = load stamp 32 s
        in case try_decrypt_with_evolution E wire st (outgoing \<noteq> 0) epoch msg_seq timestamp s of
             Panic \<Rightarrow> Panic
           | Done (Some (pt, committed), s) \<Rightarrow>
               Done (hand_out E pt (report_commit did_commit committed (store_u32 out_len (of_nat (length pt)) s)))
           | Done (None, s) \<Rightarrow> Done (0, report_commit did_commit False (store_u32 out_len 0 s)))"

text \<open>\<^verbatim>\<open>zeroize_key\<close> of \<^verbatim>\<open>message_cipher.rs\<close>, and its export.\<close>

definition zeroize_key :: "env \<Rightarrow> nat \<Rightarrow> nat \<Rightarrow> 'a native_globals_scheme \<Rightarrow> 'a native_globals_scheme" where
  "zeroize_key E ptr len s = (if ptr = 0 \<or> len = 0 then s else store ptr (zeroize_slice E (load ptr len s)) s)"

definition ffi_zeroize_key :: "env \<Rightarrow> nat \<Rightarrow> u32 \<Rightarrow> 'a native_globals_scheme \<Rightarrow> u32 \<times> 'a native_globals_scheme" where
  "ffi_zeroize_key E ptr len s = (0, zeroize_key E ptr (unat len) s)"

subsection \<open>Padding functions\<close>

definition ffi_add_tail_padding ::
  "env \<Rightarrow> nat \<Rightarrow> u32 \<Rightarrow> nat \<Rightarrow> 'a native_globals_scheme \<Rightarrow> nat \<times> 'a native_globals_scheme" where
  "ffi_add_tail_padding E data data_len out_len s =
     (if data = 0 \<or> out_len = 0 \<or> data_len = 0
      then (0, if out_len \<noteq> 0 then store_u32 out_len 0 s else s)
      else
        let (padded, s) = add_tail_padding E (load data (unat data_len) s) s
        in hand_out E padded (store_u32 out_len (of_nat (length padded)) s))"

definition ffi_strip_tail_padding ::
  "env \<Rightarrow> nat \<Rightarrow> u32 \<Rightarrow> nat \<Rightarrow> 'a native_globals_scheme \<Rightarrow> nat \<times> 'a native_globals_scheme" where
  "ffi_strip_tail_padding E data data_len out_len s =
     (if data = 0 \<or> out_len = 0 \<or> data_len = 0
      then (0, if out_len \<noteq> 0 then store_u32 out_len 0 s else s)
      else
        case strip_tail_padding (load data (unat data_len) s) of
          Some pl \<Rightarrow> hand_out E pl (store_u32 out_len (of_nat (length pl)) s)
        | None \<Rightarrow> (0, store_u32 out_len 0 s))"

subsection \<open>Handing out a buffer\<close>

text \<open>The blocks of \<open>s\<close> other than the one at \<open>out_len\<close> hold in \<open>t\<close> what they held.\<close>

definition blocks_kept :: "(nat \<times> nat) set \<Rightarrow> 'a native_globals_scheme \<Rightarrow> 'a native_globals_scheme \<Rightarrow> bool" where
  "blocks_kept except s t \<longleftrightarrow> (\<forall>b n. (b, n) \<in> set (blocks s) \<longrightarrow> (b, n) \<notin> except \<longrightarrow> load b n t = load b n s)"

text \<open>\<open>t\<close> is \<open>s\<close> with the new block \<open>(p, length bs)\<close>, holding \<open>bs\<close>, and the length of \<open>bs\<close> behind \<open>out_len\<close>.\<close>

definition handed_over ::
  "nat \<Rightarrow> bytes \<Rightarrow> 'a native_globals_scheme \<Rightarrow> nat \<Rightarrow> 'a native_globals_scheme \<Rightarrow> bool" where
  "handed_over out_len bs s p t \<longleftrightarrow>
     p \<noteq> 0 \<and> load p (length bs) t = bs \<and> load_u32 out_len t = of_nat (length bs) \<and>
     heap_wf t \<and> blocks_kept {(out_len, 4)} s t \<and> (\<exists>m. t = s\<lparr>mem := m, blocks := (p, length bs) # blocks s\<rparr>)"

lemma unat_of_nat_u32_mod: "unat (of_nat n :: u32) = n mod 2 ^ 32"
  by (simp add: unat_of_nat)

lemma unat_of_nat_u32: "n < 2 ^ 32 \<Longrightarrow> unat (of_nat n :: u32) = n"
  by (simp add: unat_of_nat)

lemma hand_out_fresh:
  assumes "alloc_laws E" and "heap_wf s" and "length bs < 2 ^ 32" and "hand_out E bs s = (p, t)" and "p \<noteq> 0"
  shows "t = s\<lparr>mem := poke p bs (mem s), blocks := (p, length bs) # blocks s\<rparr>"
    and "\<forall>b \<in> set (blocks s). apart (p, length bs) b" and "heap_wf t" and "0 < length bs"
proof -
  let ?n = "of_nat (length bs) :: u32"
  have n: "unat ?n = length bs" by (rule unat_of_nat_u32 [OF assms(3)])
  have some: "?n \<noteq> 0 \<and> sys_alloc E (blocks s) (unat ?n) \<noteq> 0"
  proof (rule ccontr)
    assume "\<not> ?thesis"
    then have "allocate_native_buffer E ?n s = (0, s)" by (intro allocate_none) blast
    with assms(4,5) show False by (simp add: hand_out_def)
  qed
  then have p: "p = sys_alloc E (blocks s) (length bs)" and t: "t = s\<lparr>mem := poke p bs (mem s), blocks := (p, length bs) # blocks s\<rparr>"
    using assms(4) allocate_some [of ?n E s] by (auto simp: hand_out_def n store_def)
  show len: "0 < length bs" using some n by (metis unat_gt_0)
  show ap: "\<forall>b \<in> set (blocks s). apart (p, length bs) b"
    using alloc_apart [OF assms(1) len] assms(5) unfolding p by blast
  show "t = s\<lparr>mem := poke p bs (mem s), blocks := (p, length bs) # blocks s\<rparr>" by (rule t)
  show "heap_wf t" using assms(2,5) len ap by (auto simp: t heap_wf_def)
qed

lemma hand_out_total:
  assumes "alloc_total E" and "0 < length bs" and "length bs < 2 ^ 32"
  shows "fst (hand_out E bs s) \<noteq> 0"
proof -
  have "(of_nat (length bs) :: u32) \<noteq> 0"
    using assms(2) unat_of_nat_u32 [OF assms(3)] by (metis unat_gt_0)
  with assms(1) show ?thesis by (simp add: hand_out_def allocate_some alloc_total_def split: prod.split)
qed

lemma hand_out_heap_wf: "alloc_laws E \<Longrightarrow> heap_wf s \<Longrightarrow> heap_wf (snd (hand_out E bs s))"
  using allocate_heap_wf [of E s "of_nat (length bs)"]
  by (cases "allocate_native_buffer E (of_nat (length bs)) s") (simp add: hand_out_def)

lemma heap_wf_store_u32 [simp]: "heap_wf (store_u32 p x s) \<longleftrightarrow> heap_wf s"
  by (simp add: store_u32_def)

text \<open>The length behind \<open>out_len\<close> and the returned block, for a function that does both.\<close>

lemma hand_out_handed_over:
  assumes laws: "alloc_laws E" and wf: "heap_wf s" and ol: "(out_len, 4) \<in> set (blocks s)" and fits: "length bs < 2 ^ 32"
    and call: "hand_out E bs (store_u32 out_len (of_nat (length bs)) s) = (p, t)" and p: "p \<noteq> 0"
  shows "handed_over out_len bs s p t"
proof -
  let ?s = "store_u32 out_len (of_nat (length bs)) s"
  have wf': "heap_wf ?s" using wf by simp
  note fresh = hand_out_fresh [OF laws wf' fits call p]
  have load_eq: "load b n t = load b n ?s" if "(b, n) \<in> set (blocks s)" for b n
    unfolding fresh(1) by (intro load_poke_apart bspec [OF fresh(2)]) (simp add: that)
  have keep: "load b n t = load b n s" if "(b, n) \<in> set (blocks s)" and "(b, n) \<noteq> (out_len, 4)" for b n
    using load_eq [OF that(1)] load_store_u32_apart [OF heap_wf_apart [OF wf ol that(1)]] that(2) by auto
  have "load p (length bs) t = bs"
    by (rule nth_equalityI) (simp_all add: fresh(1) poke_def)
  moreover have "load_u32 out_len t = of_nat (length bs)"
    using load_eq [OF ol] load_u32_store_u32 [of out_len "of_nat (length bs)" s] by (simp add: load_u32_def)
  moreover have "\<exists>m. t = s\<lparr>mem := m, blocks := (p, length bs) # blocks s\<rparr>"
    unfolding fresh(1) by (auto simp: store_u32_def store_def)
  ultimately show ?thesis
    using p fresh(3) keep by (auto simp: handed_over_def blocks_kept_def)
qed

text \<open>Releasing what was handed over with the reported length.\<close>

lemma release_handed_over:
  assumes "heap_wf s" and ho: "handed_over out_len bs s p t" and fits: "length bs < 2 ^ 32" and ne: "bs \<noteq> []"
  defines "u \<equiv> release_native_buffer p (load_u32 out_len t) t"
  shows "blocks u = blocks s" and "load p (length bs) u = zeros (length bs)" and "blocks_kept {(out_len, 4)} s u" and "heap_wf u"
proof -
  have n: "unat (load_u32 out_len t) = length bs" "load_u32 out_len t \<noteq> 0"
    using ho ne unat_of_nat_u32 [OF fits] by (auto simp: handed_over_def simp flip: unat_eq_0)
  have "blocks t = (p, length bs) # blocks s" and p: "p \<noteq> 0" and wf: "heap_wf t"
    using ho by (auto simp: handed_over_def)
  then have bt: "blocks t = (p, unat (load_u32 out_len t)) # blocks s" by (simp add: n)
  show "blocks u = blocks s" and "load p (length bs) u = zeros (length bs)"
    unfolding u_def using release_block [OF p n(2) bt] by (simp_all add: n)
  show "heap_wf u" unfolding u_def by (rule release_heap_wf [OF wf])
  have "load b m u = load b m t" if "(b, m) \<in> set (blocks s)" for b m
  proof -
    have "apart (p, length bs) (b, m)"
      using wf that by (auto simp: heap_wf_def bt n(1))
    then show ?thesis unfolding u_def by (intro release_load_apart) (simp add: n)
  qed
  moreover have "blocks_kept {(out_len, 4)} s t" using ho by (simp add: handed_over_def)
  ultimately show "blocks_kept {(out_len, 4)} s u" by (simp add: blocks_kept_def)
qed

subsection \<open>The contract of an exported function that returns a buffer\<close>

text \<open>\<open>call out_len\<close> is the exported function, \<open>core\<close> the function of the module behind it on the arguments found in memory; \<open>None\<close>
  covers null or empty arguments as well as a refusal by the module.\<close>

locale buffer_export =
  fixes E :: env
    and call :: "nat \<Rightarrow> 'a native_globals_scheme \<Rightarrow> nat \<times> 'a native_globals_scheme"
    and core :: "'a native_globals_scheme \<Rightarrow> bytes option \<times> 'a native_globals_scheme"
  assumes call_null: "call 0 s = (0, s)"
    and call_Some: "core s = (Some bs, s1) \<Longrightarrow> out_len \<noteq> 0 \<Longrightarrow>
      call out_len s = hand_out E bs (store_u32 out_len (of_nat (length bs)) s1)"
    and call_None: "core s = (None, s1) \<Longrightarrow> out_len \<noteq> 0 \<Longrightarrow> call out_len s = (0, store_u32 out_len 0 s1)"
    and core_memory: "core s = (r, s1) \<Longrightarrow> mem s1 = mem s \<and> blocks s1 = blocks s"
begin

lemma call_heap_wf:
  assumes "alloc_laws E" and "heap_wf s"
  shows "heap_wf (snd (call out_len s))"
proof (cases "out_len = 0")
  case False
  obtain r s1 where c: "core s = (r, s1)" by force
  have "heap_wf s1" using core_memory [OF c] assms(2) heap_wf_cong [of s1 s] by simp
  then show ?thesis
    using c False assms(1) by (cases r) (auto simp: call_Some call_None intro!: hand_out_heap_wf)
qed (use assms in \<open>simp add: call_null\<close>)

lemma call_failed:
  assumes "core s = (None, s1)" and "out_len \<noteq> 0"
  shows "fst (call out_len s) = 0 \<and> load_u32 out_len (snd (call out_len s)) = 0 \<and> blocks (snd (call out_len s)) = blocks s"
  using core_memory [OF assms(1)] by (simp add: call_None [OF assms])

lemma call_handed_over:
  assumes "alloc_laws E" and "heap_wf s" and "out_len \<noteq> 0" and "(out_len, 4) \<in> set (blocks s)"
    and core: "core s = (Some bs, s1)" and "length bs < 2 ^ 32" and "call out_len s = (p, t)" and "p \<noteq> 0"
  shows "handed_over out_len bs s1 p t"
proof (rule hand_out_handed_over)
  show "heap_wf s1" "(out_len, 4) \<in> set (blocks s1)"
    using core_memory [OF core] assms(2,4) heap_wf_cong [of s1 s] by simp_all
qed (use assms call_Some [OF core assms(3)] in simp_all)

lemma call_total:
  assumes "alloc_total E" and "out_len \<noteq> 0" and "core s = (Some bs, s1)" and "0 < length bs" and "length bs < 2 ^ 32"
  shows "fst (call out_len s) \<noteq> 0"
  using hand_out_total [OF assms(1,4,5)] by (simp add: call_Some [OF assms(3,2)])

lemma call_ok:
  assumes "alloc_laws E" and "alloc_total E" and "heap_wf s" and ol: "(out_len, 4) \<in> set (blocks s)"
    and core: "core s = (Some bs, s1)" and "0 < length bs" and fits: "length bs < 2 ^ 32"
  obtains p t where "call out_len s = (p, t)" and "p \<noteq> 0" and "handed_over out_len bs s1 p t" and "heap_wf t"
    and "(out_len, 4) \<in> set (blocks t)" and "load p (unat (load_u32 out_len t)) t = bs" and "load_u32 out_len t \<noteq> 0"
proof -
  have nz: "out_len \<noteq> 0" using assms(3) ol by (auto simp: heap_wf_def)
  obtain p t where c: "call out_len s = (p, t)" by force
  have p: "p \<noteq> 0" using call_total [OF assms(2) nz core assms(6) fits] c by simp
  have h: "handed_over out_len bs s1 p t" by (rule call_handed_over [OF assms(1,3) nz ol core fits c p])
  have "load_u32 out_len t = of_nat (length bs)" "load p (length bs) t = bs" "heap_wf t" "(out_len, 4) \<in> set (blocks t)"
    using h ol core_memory [OF core] by (auto simp: handed_over_def)
  then show thesis
    using that [OF c p h] assms(6) unat_of_nat_u32 [OF fits] by (auto simp flip: unat_eq_0)
qed

lemma call_release:
  assumes "alloc_laws E" and "heap_wf s" and "out_len \<noteq> 0" and "(out_len, 4) \<in> set (blocks s)"
    and core: "core s = (Some bs, s1)" and "length bs < 2 ^ 32" and "call out_len s = (p, t)" and "p \<noteq> 0"
  defines "u \<equiv> release_native_buffer p (load_u32 out_len t) t"
  shows "blocks u = blocks s \<and> load p (length bs) u = zeros (length bs) \<and> blocks_kept {(out_len, 4)} s u \<and> heap_wf u"
proof -
  have mem: "mem s1 = mem s" "blocks s1 = blocks s" using core_memory [OF core] by simp_all
  have wf: "heap_wf s1" using assms(2) mem heap_wf_cong by blast
  have ho: "handed_over out_len bs s1 p t" by (rule call_handed_over) fact+
  have "bs \<noteq> []"
    using assms(7,8) by (auto simp: call_Some [OF core assms(3)] hand_out_def allocate_native_buffer_def)
  note r = release_handed_over [OF wf ho assms(6) this, folded u_def]
  have "load b n s1 = load b n s" for b n by (rule load_cong) (simp add: mem)
  with r mem show ?thesis by (simp add: blocks_kept_def)
qed

end

subsection \<open>The exported functions meet the contract\<close>

text \<open>The calls that return a buffer, with their arguments apart from \<open>out_len\<close>.\<close>

datatype export =
    Encrypt_message nat u32 nat nat u32 u32 u64 u64
  | Decrypt_message nat u32 nat nat u32 u32 u64 u64
  | Add_tail_padding nat u32
  | Strip_tail_padding nat u32

fun run_export :: "env \<Rightarrow> export \<Rightarrow> nat \<Rightarrow> 'a native_globals_scheme \<Rightarrow> nat \<times> 'a native_globals_scheme" where
  "run_export E (Encrypt_message pt n k st d e q t) = encrypt_message E pt n k st d e q t"
| "run_export E (Decrypt_message ct n k st d e q t) = decrypt_message E ct n k st d e q t"
| "run_export E (Add_tail_padding p n) = ffi_add_tail_padding E p n"
| "run_export E (Strip_tail_padding p n) = ffi_strip_tail_padding E p n"

fun export_result :: "env \<Rightarrow> export \<Rightarrow> 'a native_globals_scheme \<Rightarrow> bytes option \<times> 'a native_globals_scheme" where
  "export_result E (Encrypt_message pt n k st d e q t) s =
     (if pt = 0 \<or> k = 0 \<or> st = 0 \<or> n = 0 then None
      else encrypt E (load pt (unat n) s) (load k 32 s) (load st 32 s) (d \<noteq> 0) e q t, s)"
| "export_result E (Decrypt_message ct n k st d e q t) s =
     (if ct = 0 \<or> k = 0 \<or> st = 0 \<or> n = 0 then None
      else decrypt E (load ct (unat n) s) (load k 32 s) (load st 32 s) (d \<noteq> 0) e q t, s)"
| "export_result E (Add_tail_padding p n) s =
     (if p = 0 \<or> n = 0 then (None, s)
      else let (padded, s) = add_tail_padding E (load p (unat n) s) s in (Some padded, s))"
| "export_result E (Strip_tail_padding p n) s =
     (if p = 0 \<or> n = 0 then None else strip_tail_padding (load p (unat n) s), s)"

lemma add_tail_padding_memory:
  "add_tail_padding E b s = (r, s1) \<Longrightarrow> mem s1 = mem s \<and> blocks s1 = blocks s \<and> root_curr s1 = root_curr s"
  by (auto simp: add_tail_padding_def next_u32_def fill_bytes_def Let_def)

interpretation ex: buffer_export E "run_export E c" "export_result E c" for E c
proof
  fix s :: "'a native_globals_scheme" and bs s1 out_len r
  show "run_export E c 0 s = (0, s)"
    by (cases c) (simp_all add: encrypt_message_def decrypt_message_def ffi_add_tail_padding_def ffi_strip_tail_padding_def)
  show "run_export E c out_len s = hand_out E bs (store_u32 out_len (of_nat (length bs)) s1)"
    if "export_result E c s = (Some bs, s1)" and "out_len \<noteq> 0"
    using that
    by (cases c) (auto simp: encrypt_message_def decrypt_message_def ffi_add_tail_padding_def ffi_strip_tail_padding_def
        split: if_splits prod.splits)
  show "run_export E c out_len s = (0, store_u32 out_len 0 s1)"
    if "export_result E c s = (None, s1)" and "out_len \<noteq> 0"
    using that
    by (cases c) (auto simp: encrypt_message_def decrypt_message_def ffi_add_tail_padding_def ffi_strip_tail_padding_def
        split: if_splits prod.splits)
  show "mem s1 = mem s \<and> blocks s1 = blocks s" if "export_result E c s = (r, s1)"
    using that
    by (cases c) (auto dest: add_tail_padding_memory split: if_splits prod.splits)
qed

text \<open>C8: A buffer that an exported function returned leaves no trace: for encryption, decryption, padding and stripping alike, whenever
  the result is below 4 GiB and the pointer is not null, releasing it with the reported length leaves exactly the blocks that
  were allocated before the call, only zeros where the result was, and every block of the caller other than the length as
  it was.\<close>

theorem released_export_leaves_no_trace:
  assumes "alloc_laws E" and "heap_wf s" and "(out_len, 4) \<in> set (blocks s)"
    and "export_result E c s = (Some bs, s1)" and "length bs < 2 ^ 32"
    and "run_export E c out_len s = (p, t)" and "p \<noteq> 0"
  defines "u \<equiv> release_native_buffer p (load_u32 out_len t) t"
  shows "load p (unat (load_u32 out_len t)) t = bs \<and> blocks u = blocks s \<and>
    load p (length bs) u = zeros (length bs) \<and> blocks_kept {(out_len, 4)} s u \<and> heap_wf u"
proof -
  have ol: "out_len \<noteq> 0" using assms(2,3) by (auto simp: heap_wf_def)
  note ho = ex.call_handed_over [OF assms(1,2) ol assms(3-7)]
  then have "load p (unat (load_u32 out_len t)) t = bs"
    using unat_of_nat_u32 [OF assms(5)] by (simp add: handed_over_def)
  with ex.call_release [OF assms(1,2) ol assms(3-7)] show ?thesis unfolding u_def by blast
qed

text \<open>A process with a length cell, a key, a stamp and a five-byte message in its memory.\<close>

definition demo_native :: native_globals where
  "demo_native = lib_globals.extend (init_globals.extend demo_init (lib_globals.fields None False))
     (native_globals.fields (\<lambda>a. of_nat a) [(100, 4), (200, 32), (300, 32), (400, 5)])"

lemmas demo_native_defs = demo_native_def lib_globals.extend_def init_globals.extend_def lib_globals.fields_def
  native_globals.fields_def demo_init_defs

lemma demo_native_heap_wf: "heap_wf demo_native"
  by (simp add: heap_wf_def demo_native_defs)

theorem released_export_leaves_no_trace_witness:
  "\<exists>p t. run_export demo_env (Encrypt_message 400 5 200 300 1 0 1 7) 100 demo_native = (p, t) \<and>
     blocks (release_native_buffer p (load_u32 100 t) t) = [(100, 4), (200, 32), (300, 32), (400, 5)]"
proof -
  let ?c = "Encrypt_message 400 5 200 300 1 0 1 7" and ?s = "demo_native"
  have b: "blocks ?s = [(100, 4), (200, 32), (300, 32), (400, 5)]" by (simp add: demo_native_defs)
  obtain wire where enc: "encrypt demo_env (load 400 5 ?s) (load 200 32 ?s) (load 300 32 ?s) True 0 1 7 = Some wire"
    and len: "length wire = 33"
    by (simp add: encrypt_def demo_env_def demo_seal_def)
  have r: "export_result demo_env ?c ?s = (Some wire, ?s)" using enc by simp
  obtain p t where call: "run_export demo_env ?c 100 ?s = (p, t)" by force
  have "p \<noteq> 0"
    using ex.call_total [OF demo_alloc_total _ r, of 100] len call by simp
  from released_export_leaves_no_trace [OF demo_alloc_laws demo_native_heap_wf _ r _ call this] len call b
  show ?thesis by simp
qed

subsection \<open>Lengths beyond 32 bits\<close>

text \<open>C36: Near 4 GiB the length of the wire no longer fits into the 32-bit length: for a plaintext of more than \<open>2 ^ 32 - 28\<close> bytes the
  block that encryption allocates is \<open>2 ^ 32\<close> bytes too short, and the whole wire is written to it, past its end.\<close>

theorem encrypt_message_overruns:
  assumes "aes_gcm_laws E" and "alloc_total E" and "pt \<noteq> 0" and "key \<noteq> 0" and "stamp \<noteq> 0" and "out_len \<noteq> 0"
    and big: "2 ^ 32 - 28 < unat pt_len"
  shows "\<exists>p t wire. encrypt_message E pt pt_len key stamp dir e q ts out_len s = (p, t) \<and> p \<noteq> 0 \<and>
    blocks t = (p, unat pt_len + 28 - 2 ^ 32) # blocks s \<and> length wire = unat pt_len + 28 \<and> load p (unat pt_len + 28) t = wire \<and>
    encrypt E (load pt (unat pt_len) s) (load key 32 s) (load stamp 32 s) (dir \<noteq> 0) e q ts = Some wire"
proof -
  let ?n = "unat pt_len" and ?s = "store_u32 out_len (of_nat (unat pt_len + 28)) s"
  have n: "?n < 2 ^ 32" by (rule unat_u32_less)
  then have "length (load pt ?n s) < 2 ^ 36" by simp
  then obtain wire where w: "encrypt E (load pt ?n s) (load key 32 s) (load stamp 32 s) (dir \<noteq> 0) e q ts = Some wire"
    and "length wire = length (load pt ?n s) + 28"
    by (rule encrypt_total [OF assms(1) length_load length_load])
  then have len: "length wire = ?n + 28" by simp
  have small: "unat (of_nat (?n + 28) :: u32) = ?n + 28 - 2 ^ 32"
    unfolding unat_of_nat_u32_mod using n big by (simp add: le_mod_geq)
  then have nz: "(of_nat (?n + 28) :: u32) \<noteq> 0" using big by (auto simp flip: unat_eq_0)
  have pt0: "pt_len \<noteq> 0" using big by auto
  define p where "p = sys_alloc E (blocks ?s) (?n + 28 - 2 ^ 32)"
  have p0: "p \<noteq> 0" using assms(2) by (simp add: p_def alloc_total_def)
  have "encrypt_message E pt pt_len key stamp dir e q ts out_len s = hand_out E wire ?s"
    using assms(3-6) pt0 w len by (simp add: encrypt_message_def)
  also have "\<dots> = (p, store p wire (?s\<lparr>blocks := (p, ?n + 28 - 2 ^ 32) # blocks ?s\<rparr>))"
    using allocate_some [OF nz, of E ?s] p0 by (simp only: hand_out_def len small p_def [symmetric]) simp
  finally show ?thesis
    using p0 len w by (intro exI [of _ p] exI [of _ "store p wire (?s\<lparr>blocks := (p, ?n + 28 - 2 ^ 32) # blocks ?s\<rparr>)"] exI [of _ wire]) simp
qed

theorem encrypt_message_overruns_witness:
  "\<exists>p t. encrypt_message demo_env 400 (- 1) 200 300 1 0 1 7 100 demo_native = (p, t) \<and> (p, 27) \<in> set (blocks t)"
  using encrypt_message_overruns [OF demo_aes_gcm_laws demo_alloc_total, of 400 200 300 100 "- 1" 1 0 1 7 demo_native] by auto

end
