(* ===== verification/Ffi_Pipeline.thy ===== *)
theory Ffi_Pipeline
  imports Ffi_Message
begin

text \<open>
  Messages between two processes through the exported functions alone: padding, encryption, stripping, decryption with and
  without an automatic commit, each result on the native heap of its process.
\<close>

subsection \<open>A message from one process to another\<close>

text \<open>The calls a sender makes for one message and those of its receiver, without the releases.\<close>

definition send_message ::
  "env \<Rightarrow> nat \<Rightarrow> u32 \<Rightarrow> nat \<Rightarrow> u32 \<Rightarrow> u32 \<Rightarrow> u64 \<Rightarrow> u64 \<Rightarrow> nat \<Rightarrow> 'a native_globals_scheme \<Rightarrow>
     (nat \<times> 'a native_globals_scheme) outcome" where
  "send_message E pt pt_len stamp dir e q ts out_len s =
     (case ffi_derive_message_key E e q s of
        Panic \<Rightarrow> Panic
      | Done (k, s) \<Rightarrow>
          (let (c, s) = encrypt_message E pt pt_len k stamp dir e q ts out_len s
           in Done (ffi_add_tail_padding E c (load_u32 out_len s) out_len s)))"

definition receive_message ::
  "env \<Rightarrow> nat \<Rightarrow> u32 \<Rightarrow> nat \<Rightarrow> u32 \<Rightarrow> u32 \<Rightarrow> u64 \<Rightarrow> u64 \<Rightarrow> nat \<Rightarrow> nat \<Rightarrow> 'a native_globals_scheme \<Rightarrow>
     (nat \<times> 'a native_globals_scheme) outcome" where
  "receive_message E w len stamp dir e q ts out_len did_commit s =
     (let (c, s) = ffi_strip_tail_padding E w len out_len s
      in decrypt_with_auto_commit E c (load_u32 out_len s) stamp dir e q ts out_len did_commit s)"

lemma derive_handed_out:
  assumes "hkdf_laws E" and "alloc_laws E" and "alloc_total E" and "heap_wf s"
  obtains k s1 key where "ffi_derive_message_key E e q s = Done (k, s1)"
    and "derive_message_key_from_root E (root_curr s) e q = Done key" and "length key = 32" and "k \<noteq> 0"
    and "load k 32 s1 = key" and "heap_wf s1" and "blocks_kept {} s s1" and "blocks s1 = (k, 32) # blocks s"
proof -
  obtain key where key: "derive_message_key_from_root E (root_curr s) e q = Done key" "length key = 32"
    using assms(1) by (rule derive_message_key_total)
  obtain k s1 where h: "hand_out E key s = (k, s1)" by force
  have k: "k \<noteq> 0" using hand_out_total [OF assms(3), of key s] key(2) h by simp
  note f = hand_out_fresh [OF assms(2,4) _ h k, simplified key(2), simplified]
  have "ffi_derive_message_key E e q s = Done (k, s1)"
    using h key by (simp add: ffi_derive_message_key_def derive_message_key_eq hand_out_def)
  moreover have "load k 32 s1 = key" by (rule nth_equalityI) (simp_all add: f(1) poke_def key(2))
  moreover have "blocks_kept {} s s1"
    unfolding blocks_kept_def f(1) using f(2) key(2) by (auto intro!: load_poke_apart)
  moreover have "blocks s1 = (k, 32) # blocks s" by (simp add: f(1) key(2))
  ultimately show thesis using that key k f(3) by blast
qed

lemma send_message_wire:
  assumes laws: "hkdf_laws E" "aes_gcm_laws E" "alloc_laws E" "alloc_total E" and wf: "heap_wf s"
    and own: "owned [(pt, unat n), (stamp, 32), (out_len, 4)] s" and fits: "unat n + 542 < 2 ^ 32"
  obtains w s' key wire where "send_message E pt n stamp dir e q ts out_len s = Done (w, s')"
    and "derive_message_key_from_root E (root_curr s) e q = Done key" and "length key = 32"
    and "encrypt E (load pt (unat n) s) key (load stamp 32 s) (dir \<noteq> 0) e q ts = Some wire"
    and "strip_tail_padding (load w (unat (load_u32 out_len s')) s') = Some wire"
    and "load_u32 out_len s' \<noteq> 0" and "length wire = unat n + 28"
proof -
  have b: "(pt, unat n) \<in> set (blocks s)" "(stamp, 32) \<in> set (blocks s)" "(out_len, 4) \<in> set (blocks s)"
    "(pt, unat n) \<noteq> (out_len, 4)" using own by (auto simp: owned_def)
  then have nz: "pt \<noteq> 0" "stamp \<noteq> 0" "out_len \<noteq> 0" "n \<noteq> 0" using wf by (auto simp: heap_wf_def)
  obtain k s1 key where d: "ffi_derive_message_key E e q s = Done (k, s1)" and k: "k \<noteq> 0"
    and key: "derive_message_key_from_root E (root_curr s) e q = Done key" "length key = 32" "load k 32 s1 = key"
    and s1: "heap_wf s1" "blocks_kept {} s s1" "blocks s1 = (k, 32) # blocks s"
    using laws(1,3,4) wf by (rule derive_handed_out)
  have args: "load pt (unat n) s1 = load pt (unat n) s" "load stamp 32 s1 = load stamp 32 s"
    using s1(2) b by (simp_all add: blocks_kept_def)
  have "length (load pt (unat n) s) < 2 ^ 36" using fits by simp
  then obtain wire where w: "encrypt E (load pt (unat n) s) key (load stamp 32 s) (dir \<noteq> 0) e q ts = Some wire"
    and "length wire = length (load pt (unat n) s) + 28"
    by (rule encrypt_total [OF laws(2) key(2) length_load])
  then have wl: "length wire = unat n + 28" by simp
  let ?enc = "Encrypt_message pt n k stamp dir e q ts"
  have r1: "export_result E ?enc s1 = (Some wire, s1)" using w nz k args key(3) by simp
  have ol1: "(out_len, 4) \<in> set (blocks s1)" using b(3) s1(3) by simp
  have wb: "0 < length wire" "length wire < 2 ^ 32" using wl fits by simp_all
  obtain c s2 where c: "run_export E ?enc out_len s1 = (c, s2)" "c \<noteq> 0" and s2: "heap_wf s2" "(out_len, 4) \<in> set (blocks s2)"
    "load c (unat (load_u32 out_len s2)) s2 = wire" "load_u32 out_len s2 \<noteq> 0"
    by (rule ex.call_ok [OF laws(3,4) s1(1) ol1 r1 wb])
  obtain padded s3 where pad: "add_tail_padding E wire s2 = (padded, s3)" by force
  let ?pad = "Add_tail_padding c (load_u32 out_len s2)"
  have r2: "export_result E ?pad s2 = (Some padded, s3)" using c(2) s2(3,4) pad by simp
  have pl: "strip_tail_padding padded = Some wire" "0 < length padded" "length padded < 2 ^ 32"
    using add_tail_padding_strips [OF pad] wl fits by simp_all
  obtain p s4 where "run_export E ?pad out_len s2 = (p, s4)"
    and res: "load p (unat (load_u32 out_len s4)) s4 = padded" "load_u32 out_len s4 \<noteq> 0"
    by (rule ex.call_ok [OF laws(3,4) s2(1,2) r2 pl(2,3)])
  then have "send_message E pt n stamp dir e q ts out_len s = Done (p, s4)"
    using d c(1) by (simp add: send_message_def)
  then show thesis using that key(1,2) w pl(1) wl res by blast
qed

text \<open>Decryption with automatic commit on a message that the module accepts.\<close>

lemma report_commit_frame:
  "blocks (report_commit dc c s) = blocks s" "heap_wf (report_commit dc c s) \<longleftrightarrow> heap_wf s"
  by (simp_all add: report_commit_def)

lemma report_commit_eq: "\<exists>m. report_commit dc c s = s\<lparr>mem := m\<rparr>"
proof (cases "dc = 0")
  case True
  then have "report_commit dc c s = s\<lparr>mem := mem s\<rparr>" by (simp add: report_commit_def)
  then show ?thesis by blast
qed (auto simp: report_commit_def store_u32_def store_def)

lemma decrypt_with_auto_commit_ok:
  assumes laws: "alloc_laws E" "alloc_total E" and wf: "heap_wf s"
    and args: "ct \<noteq> 0" "stamp \<noteq> 0" "ct_len \<noteq> 0" and own: "owned [(out_len, 4), (did_commit, 4)] s"
    and dec: "try_decrypt_with_evolution E (load ct (unat ct_len) s) (load stamp 32 s) (dir \<noteq> 0) e q ts s = Done (Some (pt, c), s1)"
    and frame: "mem s1 = mem s" "blocks s1 = blocks s" and len: "0 < length pt" "length pt < 2 ^ 32"
  obtains p t where "decrypt_with_auto_commit E ct ct_len stamp dir e q ts out_len did_commit s = Done (p, t)"
    and "load p (unat (load_u32 out_len t)) t = pt" and "load_u32 did_commit t = (if c then 1 else 0)"
    and "\<exists>m b. t = s1\<lparr>mem := m, blocks := b\<rparr>"
proof -
  let ?u = "report_commit did_commit c s1"
  have b: "(out_len, 4) \<in> set (blocks s)" "(did_commit, 4) \<in> set (blocks s)" "out_len \<noteq> did_commit"
    using own by (auto simp: owned_def)
  then have nz: "out_len \<noteq> 0" "did_commit \<noteq> 0" and ap: "apart (did_commit, 4) (out_len, 4)"
    using wf heap_wf_apart [OF wf b(2,1)] by (auto simp: heap_wf_def)
  have wf1: "heap_wf ?u" using wf frame by (simp add: report_commit_frame heap_wf_cong [of s1 s])
  have ol: "(out_len, 4) \<in> set (blocks ?u)" using b frame by (simp add: report_commit_frame)
  let ?n = "of_nat (length pt) :: u32"
  have swap: "report_commit did_commit c (store_u32 out_len ?n s1) = store_u32 out_len ?n ?u"
    using nz by (simp add: report_commit_def store_u32_commute [OF ap])
  obtain p t where h: "hand_out E pt (store_u32 out_len ?n ?u) = (p, t)" by force
  have p: "p \<noteq> 0" using hand_out_total [OF laws(2) len] h by (metis fst_conv)
  have ho: "handed_over out_len pt ?u p t" by (rule hand_out_handed_over [OF laws(1) wf1 ol len(2) h p])
  have "load did_commit 4 t = load did_commit 4 ?u"
    using ho b frame by (auto simp: handed_over_def blocks_kept_def report_commit_frame)
  then have "load_u32 did_commit t = load_u32 did_commit ?u" by (simp add: load_u32_def)
  then have "load_u32 did_commit t = (if c then 1 else 0)" using nz by (simp add: report_commit_def)
  moreover have "decrypt_with_auto_commit E ct ct_len stamp dir e q ts out_len did_commit s = Done (p, t)"
    using args nz dec swap h by (simp add: decrypt_with_auto_commit_def)
  moreover have "load p (unat (load_u32 out_len t)) t = pt"
    using ho unat_of_nat_u32 [OF len(2)] by (simp add: handed_over_def)
  moreover have "\<exists>m b. t = s1\<lparr>mem := m, blocks := b\<rparr>"
  proof -
    obtain m' where u: "?u = s1\<lparr>mem := m'\<rparr>" using report_commit_eq [of did_commit c s1] by blast
    obtain m where "t = ?u\<lparr>mem := m, blocks := (p, length pt) # blocks ?u\<rparr>" using ho unfolding handed_over_def by blast
    then have "t = s1\<lparr>mem := m, blocks := (p, length pt) # blocks s1\<rparr>" unfolding u by simp
    then show ?thesis by blast
  qed
  ultimately show thesis using that by blast
qed

lemma receive_message_ok:
  assumes laws: "alloc_laws E" "alloc_total E" and wf: "heap_wf r"
    and own: "owned [(a, unat len), (stamp, 32), (out_len, 4), (did_commit, 4)] r" and len: "len \<noteq> 0"
    and strip: "strip_tail_padding (load a (unat len) r) = Some wire" "0 < length wire" "length wire < 2 ^ 32"
    and dec: "\<And>m b. try_decrypt_with_evolution E wire (load stamp 32 r) (dir \<noteq> 0) e q ts (r\<lparr>mem := m, blocks := b\<rparr>) =
      Done (Some (pt, c), r2\<lparr>mem := m, blocks := b\<rparr>)"
    and pt: "0 < length pt" "length pt < 2 ^ 32"
  obtains p t where "receive_message E a len stamp dir e q ts out_len did_commit r = Done (p, t)"
    and "load p (unat (load_u32 out_len t)) t = pt" and "load_u32 did_commit t = (if c then 1 else 0)"
    and "\<exists>m b. t = r2\<lparr>mem := m, blocks := b\<rparr>"
proof -
  have b: "(a, unat len) \<in> set (blocks r)" "(stamp, 32) \<in> set (blocks r)" "(out_len, 4) \<in> set (blocks r)"
    "(did_commit, 4) \<in> set (blocks r)" "out_len \<noteq> did_commit" using own by (auto simp: owned_def)
  then have nz: "a \<noteq> 0" "stamp \<noteq> 0" using wf by (auto simp: heap_wf_def)
  have res: "export_result E (Strip_tail_padding a len) r = (Some wire, r)" using nz len strip(1) by simp
  obtain w r1 where w: "run_export E (Strip_tail_padding a len) out_len r = (w, r1)" "w \<noteq> 0" and ho: "handed_over out_len wire r w r1"
    and r1: "heap_wf r1" "load w (unat (load_u32 out_len r1)) r1 = wire" "load_u32 out_len r1 \<noteq> 0"
    by (rule ex.call_ok [OF laws wf b(3) res strip(2,3)])
  have "\<exists>m. r1 = r\<lparr>mem := m, blocks := (w, length wire) # blocks r\<rparr>" using ho by (simp add: handed_over_def)
  then obtain m bl where r1_eq: "r1 = r\<lparr>mem := m, blocks := bl\<rparr>" and bl: "set (blocks r) \<subseteq> set bl"
    by (metis set_subset_Cons)
  have st: "load stamp 32 r1 = load stamp 32 r" using ho b by (simp add: handed_over_def blocks_kept_def)
  have own1: "owned [(out_len, 4), (did_commit, 4)] r1" using b bl by (auto simp: owned_def r1_eq)
  have dec1: "try_decrypt_with_evolution E (load w (unat (load_u32 out_len r1)) r1) (load stamp 32 r1) (dir \<noteq> 0) e q ts r1 =
      Done (Some (pt, c), r2\<lparr>mem := m, blocks := bl\<rparr>)"
    unfolding r1(2) st using dec [where m = m and b = bl] by (simp add: r1_eq)
  obtain p t where d: "decrypt_with_auto_commit E w (load_u32 out_len r1) stamp dir e q ts out_len did_commit r1 = Done (p, t)"
    and t: "load p (unat (load_u32 out_len t)) t = pt" "load_u32 did_commit t = (if c then 1 else 0)"
      "\<exists>m' b'. t = r2\<lparr>mem := m, blocks := bl\<rparr>\<lparr>mem := m', blocks := b'\<rparr>"
    by (rule decrypt_with_auto_commit_ok [OF laws r1(1) w(2) nz(2) r1(3) own1 dec1 _ _ pt]) (simp_all add: r1_eq)
  have "receive_message E a len stamp dir e q ts out_len did_commit r = Done (p, t)"
    using w(1) d by (simp add: receive_message_def)
  with t show thesis by (auto intro!: that)
qed

text \<open>Both kinds of delivery: \<open>dec\<close> says what the module makes of the stripped wire.\<close>

lemma deliver:
  assumes laws: "hkdf_laws E" "aes_gcm_laws E" "alloc_laws E" "alloc_total E" and wf: "heap_wf s" "heap_wf r"
    and own: "owned [(pt, unat n), (stamp, 32), (out_len, 4)] s" and fits: "unat n + 542 < 2 ^ 32"
    and send: "send_message E pt n stamp dir e q ts out_len s = Done (w, s')"
    and own': "owned [(a, unat len), (stamp', 32), (out_len', 4), (did_commit, 4)] r"
    and wire: "len = load_u32 out_len s'" "load a (unat len) r = load w (unat len) s'"
    and dec: "\<And>key wr m b. derive_message_key_from_root E (root_curr s) e q = Done key \<Longrightarrow> length key = 32 \<Longrightarrow>
      encrypt E (load pt (unat n) s) key (load stamp 32 s) (dir \<noteq> 0) e q ts = Some wr \<Longrightarrow>
      strip_tail_padding (load a (unat len) r) = Some wr \<Longrightarrow>
      try_decrypt_with_evolution E wr (load stamp' 32 r) (dir \<noteq> 0) e q ts (r\<lparr>mem := m, blocks := b\<rparr>) =
        Done (Some (load pt (unat n) s, c), r2\<lparr>mem := m, blocks := b\<rparr>)"
  obtains p t where "receive_message E a len stamp' dir e q ts out_len' did_commit r = Done (p, t)"
    and "load p (unat (load_u32 out_len' t)) t = load pt (unat n) s" and "load_u32 did_commit t = (if c then 1 else 0)"
    and "\<exists>m b. t = r2\<lparr>mem := m, blocks := b\<rparr>"
proof -
  obtain key wr where key: "derive_message_key_from_root E (root_curr s) e q = Done key" "length key = 32"
    and enc: "encrypt E (load pt (unat n) s) key (load stamp 32 s) (dir \<noteq> 0) e q ts = Some wr"
    and strip: "strip_tail_padding (load w (unat len) s') = Some wr" and len: "len \<noteq> 0" "length wr = unat n + 28"
    by (rule send_message_wire [OF laws wf(1) own fits, where dir = dir and e = e and q = q and ts = ts]) (use send wire(1) in auto)
  have "n \<noteq> 0" using own wf(1) by (auto simp: owned_def heap_wf_def)
  then have bounds: "0 < length wr" "length wr < 2 ^ 32" "0 < length (load pt (unat n) s)" "length (load pt (unat n) s) < 2 ^ 32"
    using len(2) fits by (simp_all add: unat_gt_0)
  have strip': "strip_tail_padding (load a (unat len) r) = Some wr" using strip wire(2) by simp
  show thesis
    by (rule receive_message_ok [OF laws(3,4) wf(2) own' len(1) strip' bounds(1,2) dec [OF key enc strip'] bounds(3,4)]) (rule that)
qed


text \<open>C15: Peers converge through one message: after an evolution that left both with the same pending root key, one peer commits and
  sends a message of the new epoch; the other, whose old key does not authenticate it, gets the plaintext and the commit flag,
  and ends with the sender's root key and epoch, no pending key and a restarted counter, as the sender had after its commit.\<close>

theorem auto_commit_converges:
  assumes laws: "hkdf_laws E" "aes_gcm_laws E" "alloc_laws E" "alloc_total E" and wf: "heap_wf s0" "heap_wf r"
    and pend: "root_pend s0 = Some new" "root_pend r = Some new" "epoch_id s0 = epoch_id r"
    and commit: "commit_evolution E s0 = (rc, s)"
    and own: "owned [(pt, unat n), (stamp, 32), (out_len, 4)] s0" and fits: "unat n + 542 < 2 ^ 32"
    and send: "send_message E pt n stamp dir (epoch_id s) q ts out_len s = Done (w, s')"
    and own': "owned [(a, unat len), (stamp', 32), (out_len', 4), (did_commit, 4)] r"
    and wire: "len = load_u32 out_len s'" "load a (unat len) r = load w (unat len) s'"
    and stamps: "load stamp' 32 r = load stamp 32 s"
    and old: "\<And>k wr. derive_message_key_from_root E (root_curr r) (epoch_id s) q = Done k \<Longrightarrow>
      strip_tail_padding (load a (unat len) r) = Some wr \<Longrightarrow>
      decrypt E wr k (load stamp' 32 r) (dir \<noteq> 0) (epoch_id s) q ts = None"
  shows "\<exists>p r'. receive_message E a len stamp' dir (epoch_id s) q ts out_len' did_commit r = Done (p, r') \<and>
    load p (unat (load_u32 out_len' r')) r' = load pt (unat n) s \<and> load_u32 did_commit r' = 1 \<and>
    root_curr r' = root_curr s \<and> root_pend r' = None \<and> epoch_id r' = epoch_id s \<and> msg_counter r' = msg_counter s"
proof -
  let ?e = "epoch_id s"
  have s: "s = s0\<lparr>msg_counter := 1, root_curr := new, root_pend := None, epoch_id := epoch_id s0 + 1\<rparr>"
    using commit by (simp add: commit_evolution_Some [OF pend(1)])
  then have f: "root_curr s = new" "?e = epoch_id r + 1" "msg_counter s = 1" "blocks s = blocks s0" using pend(3) by simp_all
  have wf': "heap_wf s" "owned [(pt, unat n), (stamp, 32), (out_len, 4)] s"
    using wf(1) own f(4) by (simp_all add: heap_wf_def owned_def)
  obtain k where k: "derive_message_key_from_root E (root_curr r) ?e q = Done k" using laws(1) by (rule derive_message_key_total)
  have dec: "try_decrypt_with_evolution E wr (load stamp' 32 r) (dir \<noteq> 0) ?e q ts (r\<lparr>mem := m, blocks := b\<rparr>) =
      Done (Some (load pt (unat n) s, True), r\<lparr>msg_counter := 1, root_curr := new, root_pend := None, epoch_id := ?e\<rparr>\<lparr>mem := m, blocks := b\<rparr>)"
    if key: "derive_message_key_from_root E (root_curr s) ?e q = Done key" "length key = 32"
      and enc: "encrypt E (load pt (unat n) s) key (load stamp 32 s) (dir \<noteq> 0) ?e q ts = Some wr"
      and strip: "strip_tail_padding (load a (unat len) r) = Some wr" for key wr m b
  proof -
    let ?r = "r\<lparr>mem := m, blocks := b\<rparr>"
    have "decrypt E wr key (load stamp' 32 r) (dir \<noteq> 0) ?e q ts = Some (load pt (unat n) s)"
      using decrypt_encrypt [OF laws(2) key(2) enc] stamps by simp
    with try_decrypt_pending [of E ?r ?e q k wr "load stamp' 32 r" "dir \<noteq> 0" ts new key] k old [OF k strip] pend(2) key(1) f
    show ?thesis by simp
  qed
  show ?thesis
    by (rule deliver [OF laws wf'(1) wf(2) wf'(2) fits send own' wire dec]) (auto simp: f)
qed

subsection \<open>A concrete pair of processes\<close>

text \<open>A receiver with the demo process's keys, the wire at address 2000 and a cell for the commit flag at 50.\<close>

definition demo_receiver :: "nat \<Rightarrow> native_globals \<Rightarrow> native_globals" where
  "demo_receiver w s' = demo_native\<lparr>
     mem := poke 2000 (load w (unat (load_u32 100 s')) s') (mem demo_native),
     blocks := [(2000, unat (load_u32 100 s')), (50, 4), (100, 4), (200, 32), (300, 32), (400, 5)]\<rparr>"

lemma demo_receiver_ok:
  assumes "load_u32 100 s' \<noteq> 0"
  shows "heap_wf (demo_receiver w s')"
    and "owned [(2000, unat (load_u32 100 s')), (300, 32), (100, 4), (50, 4)] (demo_receiver w s')"
    and "load 2000 (unat (load_u32 100 s')) (demo_receiver w s') = load w (unat (load_u32 100 s')) s'"
    and "load 300 32 (demo_receiver w s') = load 300 32 demo_native"
proof -
  let ?m = "unat (load_u32 100 s')"
  have "0 < ?m" using assms by (simp add: unat_gt_0)
  then show "heap_wf (demo_receiver w s')" by (simp add: demo_receiver_def heap_wf_def)
  show "owned [(2000, ?m), (300, 32), (100, 4), (50, 4)] (demo_receiver w s')"
    by (simp add: demo_receiver_def owned_def)
  show "load 2000 ?m (demo_receiver w s') = load w ?m s'"
    by (rule nth_equalityI) (simp_all add: demo_receiver_def poke_def)
  show "load 300 32 (demo_receiver w s') = load 300 32 demo_native"
    by (rule load_cong) (simp add: demo_receiver_def poke_def)
qed

lemma demo_native_owned: "owned [(400, unat (5 :: u32)), (300, 32), (100, 4)] demo_native"
  by (simp add: owned_def demo_native_defs)


text \<open>The demo process after a commit, and what its messages look like to the old key.\<close>

definition demo_committed :: native_globals where
  "demo_committed = demo_native\<lparr>msg_counter := 1, root_curr := replicate 32 1, root_pend := None, epoch_id := 1\<rparr>"

lemma demo_committed: "commit_evolution demo_env demo_native = (0, demo_committed)"
  by (simp add: demo_committed_def commit_evolution_Some [of _ "replicate 32 1"] demo_native_defs)

lemma demo_key: "length root = 32 \<Longrightarrow> derive_message_key_from_root demo_env root e q = Done root"
  by (simp add: derive_message_key_from_root_def demo_env_def)

lemma demo_old_key_rejects:
  assumes "encrypt demo_env pt (replicate 32 1) st d e q ts = Some wr"
  shows "decrypt demo_env wr (zeros 32) st d e q ts = None"
proof -
  have "wr = build_nonce e ts q @ pt @ replicate 16 1"
    using assms by (simp add: encrypt_Some_iff demo_env_def demo_seal_def demo_tag_def)
  then show ?thesis
    by (simp add: decrypt_def demo_env_def demo_open_def demo_tag_def replicate_eq_replicate)
qed

theorem auto_commit_converges_witness:
  "\<exists>w s' p r'. send_message demo_env 400 5 300 1 1 1 7 100 demo_committed = Done (w, s') \<and>
     receive_message demo_env 2000 (load_u32 100 s') 300 1 1 1 7 100 50 (demo_receiver w s') = Done (p, r') \<and>
     load_u32 50 r' = 1 \<and> root_curr r' = replicate 32 1 \<and> epoch_id r' = 1"
proof -
  let ?s = demo_committed
  have fits: "unat (5 :: u32) + 542 < 2 ^ 32" by simp
  have s: "heap_wf ?s" "owned [(400, unat (5 :: u32)), (300, 32), (100, 4)] ?s" "epoch_id ?s = 1" "root_curr ?s = replicate 32 1"
    using demo_native_heap_wf demo_native_owned by (simp_all add: demo_committed_def heap_wf_def owned_def)
  obtain w s' key wr where send: "send_message demo_env 400 5 300 1 1 1 7 100 ?s = Done (w, s')" and len: "load_u32 100 s' \<noteq> 0"
    and key: "derive_message_key_from_root demo_env (root_curr ?s) 1 1 = Done key"
    and enc: "encrypt demo_env (load 400 (unat (5 :: u32)) ?s) key (load 300 32 ?s) (1 \<noteq> (0 :: u32)) 1 1 7 = Some wr"
    and strip: "strip_tail_padding (load w (unat (load_u32 100 s')) s') = Some wr"
    by (rule send_message_wire [OF demo_hkdf_laws demo_aes_gcm_laws demo_alloc_laws demo_alloc_total s(1,2) fits])
  note r = demo_receiver_ok [OF len, of w]
  let ?r = "demo_receiver w s'"
  have f: "root_pend demo_native = Some (replicate 32 1)" "root_pend ?r = Some (replicate 32 1)" "epoch_id demo_native = epoch_id ?r"
    "root_curr ?r = zeros 32"
    by (simp_all add: demo_receiver_def) (simp_all add: demo_native_defs)
  have st: "load 300 32 ?r = load 300 32 ?s" unfolding r(4) by (rule load_cong) (simp add: demo_committed_def)
  have "key = replicate 32 1" using key demo_key [of "replicate 32 1"] s(4) by simp
  then have old: "decrypt demo_env wr' k (load 300 32 ?r) (1 \<noteq> (0 :: u32)) 1 1 7 = None"
    if "derive_message_key_from_root demo_env (root_curr ?r) 1 1 = Done k"
      and "strip_tail_padding (load 2000 (unat (load_u32 100 s')) ?r) = Some wr'" for k wr'
    using that demo_old_key_rejects enc strip demo_key [of "zeros 32"] by (simp add: f(4) r(3) st)
  from auto_commit_converges [OF demo_hkdf_laws demo_aes_gcm_laws demo_alloc_laws demo_alloc_total demo_native_heap_wf r(1) f(1-3)
      demo_committed demo_native_owned fits _ r(2) refl r(3) st, of 1 1 7] send old s(3,4)
  show ?thesis by auto
qed

end
