(* ===== verification/Ffi_Keys.thy ===== *)
theory Ffi_Keys
  imports Native_Heap Anti_Dos Flow_Props
begin

text \<open>
  The remaining exports of \<^verbatim>\<open>lib.rs\<close> over the native memory: initialisation, evolution, recovery, cover traffic, and the purge,
  which ends the process.  Each tests its pointers, copies its arguments out of the memory, calls the module and copies the
  result back.
\<close>

subsection \<open>Root state and identity\<close>

definition init_root_state ::
  "env \<Rightarrow> nat \<Rightarrow> u32 \<Rightarrow> nat \<Rightarrow> u32 \<Rightarrow> nat \<Rightarrow> u32 \<Rightarrow> 'a native_globals_scheme \<Rightarrow> u32 \<times> 'a native_globals_scheme" where
  "init_root_state E a_ptr a_len b_ptr b_len pk_ptr pk_len s =
     (if a_ptr = 0 \<or> b_ptr = 0 \<or> a_len = 0 \<or> b_len = 0 then (1, s)
      else
        let a = load a_ptr (unat a_len) s;
            b = load b_ptr (unat b_len) s;
            pk = (if pk_ptr = 0 \<or> pk_len = 0 then [] else load pk_ptr (unat pk_len) s)
        in initialise_root_state E a b pk s)"

definition generate_id_stamp :: "env \<Rightarrow> 'a native_globals_scheme \<Rightarrow> u32 \<times> 'a native_globals_scheme" where
  "generate_id_stamp E s = generate_and_persist_id_stamp E s"

subsection \<open>Evolution\<close>

definition KEM_PK_LEN :: u32 where "KEM_PK_LEN = 1568"
definition KEM_SK_LEN :: u32 where "KEM_SK_LEN = 3168"

definition evolution_generate_bob_keypair ::
  "env \<Rightarrow> nat \<Rightarrow> u32 \<Rightarrow> nat \<Rightarrow> u32 \<Rightarrow> 'a native_globals_scheme \<Rightarrow> (u32 \<times> 'a native_globals_scheme) outcome" where
  "evolution_generate_bob_keypair E out_pk pk_cap out_sk sk_cap s =
     (if out_pk = 0 \<or> out_sk = 0 \<or> pk_cap < KEM_PK_LEN \<or> sk_cap < KEM_SK_LEN then Done (1, s)
      else
        case generate_bob_keypair E (zeros (unat KEM_PK_LEN)) (zeros (unat KEM_SK_LEN)) s of
          Panic \<Rightarrow> Panic
        | Done (r, pk, sk, s) \<Rightarrow> Done (r, if r = 0 then store out_sk sk (store out_pk pk s) else s))"

definition evolution_set_peer_public_key ::
  "env \<Rightarrow> nat \<Rightarrow> u32 \<Rightarrow> 'a native_globals_scheme \<Rightarrow> u32 \<times> 'a native_globals_scheme" where
  "evolution_set_peer_public_key E pk pk_len s =
     (if pk = 0 \<or> pk_len = 0 then (1, s) else (0, set_peer_public_key E (load pk (unat pk_len) s) s))"

definition ffi_start_evolution :: "env \<Rightarrow> 'a native_globals_scheme \<Rightarrow> (u32 \<times> 'a native_globals_scheme) outcome" where
  "ffi_start_evolution E s = start_evolution E s"

definition ffi_kem_cipher_len :: "'a native_globals_scheme \<Rightarrow> u32" where
  "ffi_kem_cipher_len s = of_nat (kem_cipher_len s)"

definition ffi_get_kem_cipher :: "nat \<Rightarrow> u32 \<Rightarrow> 'a native_globals_scheme \<Rightarrow> u32 \<times> 'a native_globals_scheme" where
  "ffi_get_kem_cipher out cap s =
     (if out = 0 \<or> cap = 0 then (1, s)
      else
        let (len, buf) = get_kem_cipher (zeros (unat cap)) s
        in if len = 0 then (1, s) else (of_nat len, store out (take len buf) s))"

definition ffi_apply_peer_kem ::
  "env \<Rightarrow> nat \<Rightarrow> u32 \<Rightarrow> 'a native_globals_scheme \<Rightarrow> (u32 \<times> 'a native_globals_scheme) outcome" where
  "ffi_apply_peer_kem E ct ct_len s =
     (if ct = 0 \<or> ct_len = 0 then Done (1, s) else apply_peer_kem E (load ct (unat ct_len) s) s)"

definition ffi_commit_evolution :: "env \<Rightarrow> 'a native_globals_scheme \<Rightarrow> u32 \<times> 'a native_globals_scheme" where
  "ffi_commit_evolution E s = evolution_commit E s"

definition ffi_recover_after_loss :: "env \<Rightarrow> u32 \<Rightarrow> 'a native_globals_scheme \<Rightarrow> u32 \<times> 'a native_globals_scheme" where
  "ffi_recover_after_loss E target_epoch s = recover_after_loss E target_epoch s"

subsection \<open>Cover traffic\<close>

definition ffi_build_noise_packet :: "env \<Rightarrow> nat \<Rightarrow> nat \<Rightarrow> 'a native_globals_scheme \<Rightarrow> u32 \<times> 'a native_globals_scheme" where
  "ffi_build_noise_packet E out out_len s =
     (if out = 0 \<or> out_len = 0 then (1, s)
      else
        let (pkt, s) = build_noise_packet E s
        in (0, store out pkt (store_u32 out_len (of_nat (length pkt)) s)))"

text \<open>A callback is an address; a null one is refused.\<close>

definition ffi_start_constant_flow :: "nat \<Rightarrow> flow_globals \<Rightarrow> u32 \<times> flow_globals" where
  "ffi_start_constant_flow cb s = (if cb = 0 then (1, s) else start_constant_flow cb s)"

definition ffi_stop_constant_flow :: "flow_globals \<Rightarrow> (u32 \<times> flow_globals) outcome" where
  "ffi_stop_constant_flow s = stop_constant_flow s"

subsection \<open>Purge\<close>

text \<open>A call that returns to its caller, or ends the process.\<close>

datatype ('a, 's) call_end = Returns 'a 's | Ends process_end 's

definition purge_vault :: "env \<Rightarrow> nat \<Rightarrow> u32 \<Rightarrow> 'a native_globals_scheme \<Rightarrow> (u32, 'a native_globals_scheme) call_end" where
  "purge_vault E path_ptr path_len s =
     (if path_ptr = 0 \<or> path_len = 0 then Returns 1 s
      else
        let path = load path_ptr (unat path_len) s
        in if \<not> utf8_valid path then Returns 2 s
           else
             case purge_entire_vault E path s of
               (Inr _, s) \<Rightarrow> Ends (execute_panic_exit E) s
             | (Inl _, s) \<Rightarrow> Returns 3 s)"


definition demo_purge :: native_globals where
  "demo_purge = lib_globals.extend (init_globals.extend demo_init (lib_globals.fields None False))
     (native_globals.fields (\<lambda>a. of_nat a) [(65, 1)])\<lparr>paths := [[65] \<mapsto> 0],
       inodes := (\<lambda>_. \<lparr>content = [1, 2, 3], durable = [], atime = 0, mtime = 0\<rparr>)\<rparr>"


subsection \<open>An evolution through the exports\<close>

lemma evolution_keypair_ok:
  assumes "kyber_laws E" and "opk \<noteq> 0" and "osk \<noteq> 0" and "1568 \<le> pk_cap" and "3168 \<le> sk_cap" and "apart (opk, 1568) (osk, 3168)"
  obtains b1 where "evolution_generate_bob_keypair E opk pk_cap osk sk_cap b = Done (0, b1)"
    and "load opk 1568 b1 = fst (kyber_keypair E (rng_draws b))"
    and "bob_keys b1 = (fst (kyber_keypair E (rng_draws b)), sb_from_vec (to_vec (snd (kyber_keypair E (rng_draws b)))))"
    and "root_curr b1 = root_curr b" and "epoch_id b1 = epoch_id b"
proof -
  let ?pk = "fst (kyber_keypair E (rng_draws b))" and ?sk = "snd (kyber_keypair E (rng_draws b))"
  let ?b = "b\<lparr>rng_draws := Suc (rng_draws b), bob_keys := (?pk, sb_from_vec (to_vec ?sk))\<rparr>"
  have len: "length ?pk = 1568" "length ?sk = 3168" using assms(1) unfolding kyber_laws_def by blast+
  have "generate_bob_keypair E (zeros (unat KEM_PK_LEN)) (zeros (unat KEM_SK_LEN)) b = Done (0, ?pk, ?sk, ?b)"
    by (rule generate_bob_keypair_accepts [OF assms(1)]) (simp_all add: KEM_PK_LEN_def KEM_SK_LEN_def)
  then have gen: "evolution_generate_bob_keypair E opk pk_cap osk sk_cap b = Done (0, store osk ?sk (store opk ?pk ?b))"
    using assms(2-5) by (simp add: evolution_generate_bob_keypair_def KEM_PK_LEN_def KEM_SK_LEN_def not_less)
  have "apart (osk, length ?sk) (opk, 1568)" using apart_sym [OF assms(6)] len by simp
  then have "load opk 1568 (store osk ?sk (store opk ?pk ?b)) = ?pk" by (simp add: load_store_apart len)
  moreover have "bob_keys (store osk ?sk (store opk ?pk ?b)) = (?pk, sb_from_vec (to_vec ?sk))" by (simp add: store_def)
  ultimately show thesis using gen by (intro that [of "store osk ?sk (store opk ?pk ?b)"]) simp_all
qed

text \<open>C16: An evolution through the exported functions makes both peers hold the same pending key: Bob's public key as it lies in his
  memory, given to Alice, and her ciphertext as it lies in hers, given to Bob; every call reports success, and current keys and
  epochs stay.\<close>

theorem ffi_evolution_agreement:
  fixes a b :: "'a native_globals_scheme"
  assumes laws: "hash_sizes E" "hkdf_laws E" "kyber_laws E" and curr: "root_curr a = root_curr b"
    and nz: "opk \<noteq> 0" "osk \<noteq> 0" "p \<noteq> 0" "out \<noteq> 0" "q \<noteq> 0"
    and caps: "1568 \<le> pk_cap" "3168 \<le> sk_cap" "apart (opk, 1568) (osk, 3168)"
  shows "\<exists>b1 a1 a2 a3 b2 k.
    evolution_generate_bob_keypair E opk pk_cap osk sk_cap b = Done (0, b1) \<and>
    evolution_set_peer_public_key E p 1568 (store p (load opk 1568 b1) a) = (0, a1) \<and>
    ffi_start_evolution E a1 = Done (0, a2) \<and> ffi_get_kem_cipher out (ffi_kem_cipher_len a2) a2 = (1568, a3) \<and>
    ffi_apply_peer_kem E q 1568 (store q (load out 1568 a3) b1) = Done (0, b2) \<and>
    root_pend a3 = Some k \<and> root_pend b2 = Some k \<and> length k = 32 \<and>
    root_curr a3 = root_curr a \<and> root_curr b2 = root_curr b \<and> epoch_id a3 = epoch_id a \<and> epoch_id b2 = epoch_id b"
proof -
  obtain b1 where gen: "evolution_generate_bob_keypair E opk pk_cap osk sk_cap b = Done (0, b1)"
    and pk: "load opk 1568 b1 = fst (kyber_keypair E (rng_draws b))"
    and b1: "bob_keys b1 = (fst (kyber_keypair E (rng_draws b)), sb_from_vec (to_vec (snd (kyber_keypair E (rng_draws b)))))"
      "root_curr b1 = root_curr b" "epoch_id b1 = epoch_id b"
    using laws(3) nz(1,2) caps by (rule evolution_keypair_ok)
  let ?pk = "fst (kyber_keypair E (rng_draws b))" and ?sk = "snd (kyber_keypair E (rng_draws b))"
  have "length ?sk = 3168" using laws(3) unfolding kyber_laws_def by blast
  then have sk: "?sk \<noteq> []" by auto
  let ?a = "set_peer_public_key E ?pk (store p ?pk a)"
  have len: "length ?pk = 1568" using laws(3) unfolding kyber_laws_def by blast
  have set: "evolution_set_peer_public_key E p 1568 (store p (load opk 1568 b1) a) = (0, ?a)"
    using nz(3) len by (simp add: evolution_set_peer_public_key_def pk)
  have pre: "root_curr ?a = root_curr b1" "pk_bound E ?a" "bob_public_key ?a = ?pk"
    using curr b1(2) set_peer_public_key_pk_bound by (auto simp: set_peer_public_key_def)
  obtain ct k ss where ct: "length ct = 1568" and k: "length k = 32"
    and start: "start_evolution E ?a = Done (0, ?a\<lparr>rng_draws := Suc (rng_draws ?a), root_pend := Some k,
           kem_cipher := Some (sb_from_vec (to_vec ct))\<rparr>)"
    and bob: "kyber_decapsulate E ct ?sk = Some ss" "length ss = 32" "derive_pending_key E ss (root_curr ?a) = Some k"
    by (rule evolution_agreement [OF laws pre(2,3)])
  let ?a2 = "?a\<lparr>rng_draws := Suc (rng_draws ?a), root_pend := Some k, kem_cipher := Some (sb_from_vec (to_vec ct))\<rparr>"
  have get: "ffi_get_kem_cipher out (ffi_kem_cipher_len ?a2) ?a2 = (1568, store out ct ?a2)"
    using nz(4) ct get_kem_cipher_all [of ?a2 ct]
    by (simp add: ffi_get_kem_cipher_def ffi_kem_cipher_len_def kem_cipher_len_def)
  have "apply_peer_kem E ct (store q ct b1) = Done (0, (store q ct b1)\<lparr>root_pend := Some k\<rparr>)"
    using bob pre(1) b1 sk by (intro apply_peer_kem_accepts) (simp_all add: store_def)
  then have ap: "ffi_apply_peer_kem E q 1568 (store q (load out 1568 (store out ct ?a2)) b1) =
      Done (0, (store q ct b1)\<lparr>root_pend := Some k\<rparr>)"
    using nz(5) ct by (simp add: ffi_apply_peer_kem_def)
  have pend: "root_pend (store out ct ?a2) = Some k" by (simp add: store_def)
  show ?thesis
    unfolding ffi_start_evolution_def
    by (intro exI conjI, rule gen, rule set, rule start, rule get, rule ap, rule pend)
      (simp_all add: k b1 store_def set_peer_public_key_def)
qed

theorem ffi_evolution_agreement_witness:
  "\<exists>b1. evolution_generate_bob_keypair demo_env 10000 1568 20000 3168 demo_purge = Done (0, b1)"
  using ffi_evolution_agreement [OF demo_hash_sizes demo_hkdf_laws demo_kyber_laws refl, of 10000 20000 1 1 1 1568 3168 demo_purge]
  by auto

end
