(* ===== verification/Spec2Isabelle.thy ===== *)
theory Spec2Isabelle
  imports Key_Threads Unit_Tests Flow_Props Vault_Erase Vault_Crash Vault_Faults Ffi_Blocks Ffi_Pipeline Ffi_Keys
begin

text \<open>
  A verification library for the \<^verbatim>\<open>secure_core\<close> crate of LinkChat (\<^verbatim>\<open>src/secure_core/src\<close>).

  \<^bold>\<open>The program.\<close>  Two peers share a 32-byte root key.  \<^verbatim>\<open>init_module.rs\<close> makes the first one from two
  entropy streams; \<^verbatim>\<open>root_state.rs\<close> holds the current and the pending root key and the epoch;
  \<^verbatim>\<open>evolution.rs\<close> derives a pending key from a key encapsulation; \<^verbatim>\<open>anti_dos.rs\<close> hashes the root key
  forward to a later epoch; \<^verbatim>\<open>message_cipher.rs\<close> derives message keys, numbers and encrypts messages, and
  commits a pending key when a message of the next epoch authenticates under it; \<^verbatim>\<open>tail_padding.rs\<close> hides
  message lengths; \<^verbatim>\<open>constant_flow.rs\<close> sends packets of one size at a fixed rate; \<^verbatim>\<open>clock_align.rs\<close> estimates the
  counter skew of the peer; \<^verbatim>\<open>virtual_volume.rs\<close> keeps encrypted blocks in one container file, which
  \<^verbatim>\<open>disk_wipe.rs\<close> destroys; \<^verbatim>\<open>memory_protection.rs\<close> owns secret buffers; \<^verbatim>\<open>lib.rs\<close> exports all of it to C.

  \<^bold>\<open>Conventions.\<close>  Fixed-width integers are words and their sums wrap, as in a release build; \<^verbatim>\<open>usize\<close> is
  \<^typ>\<open>nat\<close>; byte slices and arrays are lists of 8-bit words; a panic is the value \<^const>\<open>Panic\<close>; \<^verbatim>\<open>io::Result\<close> is a sum with
  \<^typ>\<open>io_error\<close> on the left.  The process-wide statics are one record that grows by extension: \<^typ>\<open>world\<close> (random draws
  and the operating system), \<^typ>\<open>msg_globals\<close>, \<^typ>\<open>root_globals\<close>, \<^typ>\<open>evo_globals\<close>, \<^typ>\<open>init_globals\<close>,
  \<^typ>\<open>lib_globals\<close>, \<^typ>\<open>native_globals\<close> (the memory behind the pointers of the C interface and its allocations); an operation is typed
  over the smallest part it needs.  The statics of the sender and of the clock are records of their own (\<^typ>\<open>flow_globals\<close>,
  \<^typ>\<open>clock_globals\<close>).  An operation is one function of the state; what threads may observe between the accesses of an operation is
  modelled on top, for the sender as \<^const>\<open>flow_step\<close> and for the keys as \<^const>\<open>threads_step\<close>.

  \<^bold>\<open>Parameters.\<close>  The record \<^typ>\<open>env\<close> gathers the code outside the crate: SHA-256, HMAC, HKDF, AES-GCM,
  ChaCha20-Poly1305, Kyber, the random generator, \<^verbatim>\<open>zeroize\<close>, which calls of the operating system fail and when they
  happen, what changing the times of a file does, where the allocator places a block, and the disposition of SIGTERM.  What the crate
  relies on is stated by \<^const>\<open>hash_sizes\<close>, \<^const>\<open>hkdf_laws\<close>, \<^const>\<open>aes_gcm_laws\<close>, \<^const>\<open>chacha_laws\<close>, \<^const>\<open>kyber_laws\<close>,
  \<^const>\<open>zeroize_laws\<close>, \<^const>\<open>os_reliable\<close>, \<^const>\<open>utimes_laws\<close>, \<^const>\<open>alloc_laws\<close> and \<^const>\<open>alloc_total\<close>; \<^const>\<open>demo_env\<close> is a concrete
  instance that satisfies all of them and on which the witnesses run.  The laws are functional: they say nothing about secrecy, and the
  one on Kyber leaves out its negligible decapsulation failures.

  \<^bold>\<open>Theories.\<close>
  \<^item> \<^verbatim>\<open>Prelude\<close>, \<^verbatim>\<open>Codec\<close>, \<^verbatim>\<open>Utf8\<close>: types, results, slices, word lemmas; little-endian encodings as the locale \<^verbatim>\<open>fixed_codec\<close>;
    which byte strings are UTF-8.
  \<^item> \<^verbatim>\<open>World\<close>, \<^verbatim>\<open>Os_File\<close>: the parameters with their laws, the random generator; the file calls of \<^verbatim>\<open>std::fs\<close> with failing
    calls, partial writes, durability and power failure.
  \<^item> \<^verbatim>\<open>Root_State\<close>: message counter and root keys; the locale \<^verbatim>\<open>epoch_advance\<close> is the contract of commit and roll-forward.
  \<^item> \<^verbatim>\<open>Message_Cipher\<close>: layouts, encryption round trip, authenticity relative to the cipher's laws, transactional commit.
  \<^item> \<^verbatim>\<open>Tail_Padding\<close>, \<^verbatim>\<open>Memory_Protection\<close>: padding round trip; nothing is left in a dropped buffer.
  \<^item> \<^verbatim>\<open>Anti_Dos\<close>: recovery against a specification that iterates the key roll.
  \<^item> \<^verbatim>\<open>Evolution\<close>, \<^verbatim>\<open>Init_Module\<close>: the handshake of two peers; entropy gate, interleaving, initial root key.
  \<^item> \<^verbatim>\<open>Key_Machine\<close>: what each key operation leaves alone, and the states reachable by whole operations.
  \<^item> \<^verbatim>\<open>Key_Threads\<close>: the key operations as calls that run interleaved, one access to a global under its locks per step.  A call that is
    not interrupted is the whole operation; in every interleaving keys keep their size, plaintexts are authentic, no call panics or waits
    forever, and no pair of epoch and number is issued twice; two races in which the outcome is not what either call intends.
  \<^item> \<^verbatim>\<open>Block_Bitmap\<close>, \<^verbatim>\<open>Virtual_Volume\<close>: the bitmap (locale \<^verbatim>\<open>bitset\<close>) and every method of the container.
  \<^item> \<^verbatim>\<open>Volume_Alloc\<close>: the allocator's invariant under failing calls; the locale \<^verbatim>\<open>block_allocator\<close> excludes double allocation.
  \<^item> \<^verbatim>\<open>Volume_Store\<close>, \<^verbatim>\<open>Volume_Persist\<close>: block and superblock round trips, creation, reopening, power failure.
  \<^item> \<^verbatim>\<open>Volume_Refine\<close>: the encrypted container implements a map from blocks to plaintexts with a set of free blocks (locale
    \<^verbatim>\<open>data_refinement\<close>), for any sequence of operations and reopenings.
  \<^item> \<^verbatim>\<open>Disk_Wipe\<close>: a purge that reports success has destroyed the file.
  \<^item> \<^verbatim>\<open>Clock_Align\<close>: the ring buffer as a window of the last 16 samples (locale \<^verbatim>\<open>bounded_log\<close>) and its median.
  \<^item> \<^verbatim>\<open>Constant_Flow\<close>, \<^verbatim>\<open>Flow_Props\<close>: the sender's interleavings with poisoned locks; packet size, silence after stop, that senders end
    in fair runs, and what a failing entropy source does.
  \<^item> \<^verbatim>\<open>Ffi_Vault\<close>, \<^verbatim>\<open>Ffi_Vault_Props\<close>, \<^verbatim>\<open>Vault_Restart\<close>: the exported vault functions over buffers, canary slots, identity stamp; what
    the next process finds.
  \<^item> \<^verbatim>\<open>Vault_Erase\<close>: an erased block stays erased after a power failure; a written block is not durable before the next flush.
  \<^item> \<^verbatim>\<open>Vault_Crash\<close>: pre- and postconditions for fallible calls, with a condition for the error exit; a held block stays allocated through
    failing calls and power failures that tear the file (\<^const>\<open>vault_life\<close>).
  \<^item> \<^verbatim>\<open>Vault_Faults\<close>: opening a vault when one call fails; the vault is replaced, or its path is blocked.
  \<^item> \<^verbatim>\<open>Native_Heap\<close>: native memory, the two heap functions, ownership of blocks.
  \<^item> \<^verbatim>\<open>Ffi_Blocks\<close>, \<^verbatim>\<open>Ffi_Message\<close>, \<^verbatim>\<open>Ffi_Pipeline\<close>, \<^verbatim>\<open>Ffi_Keys\<close>: the exports that take pointers, on native memory: vault; messages
    and padding, whose returned buffers leave no trace once released; a message from sender to receiver; keys, evolution, flow and purge.
  \<^item> \<^verbatim>\<open>Volume_Tests\<close>, \<^verbatim>\<open>Unit_Tests\<close>: the crate's unit tests as programs, which pass for every environment that satisfies the laws.

  \<^bold>\<open>Loops.\<close>  All loops are structural recursions, folds over the iteration count of the source, or functions with a
  termination proof on the bytes that remain, so no fuel is used and every operation is total.  \<^const>\<open>job_run\<close> takes a number of steps;
  four, respectively two more than the epochs to roll, are enough for every call.

  \<^bold>\<open>Not modelled.\<close>  Timing, side channels and the optimiser; memory that is not behind a pointer argument, such as stack copies of keys;
  weak memory (locks and sequentially consistent atomics are taken as one total order of accesses); interleaving of vault exports, which hold the
  lock of the vault for their whole body; the unit tests that assert that two outputs of a hash or of a cipher differ, and the one that
  asserts nothing.  The parameters above are not modelled either, as they are not part of the crate.
\<close>

end
